theory Spec2Isabelle
  imports Complex_Main
begin

section \<open>Python values used by the game\<close>

text \<open>
  A Python \<open>str\<close> is a sequence of code points. It is modelled as a \<open>string\<close>, whose
  characters are the code points below 256 (Latin-1); text with higher code points is
  outside the model. Python's \<open>int\<close> is unbounded and is modelled as \<open>int\<close>; the
  interpreter's limit on the number of digits of a conversion is outside the model.
  Turtle coordinates are floating point numbers; they are modelled as real numbers.
\<close>

definition is_decimal :: "char \<Rightarrow> bool" where
  "is_decimal c = (48 \<le> (of_char c :: nat) \<and> (of_char c :: nat) \<le> 57)"

definition digit_value :: "char \<Rightarrow> nat" where
  "digit_value c = of_char c - 48"

definition digit_char :: "nat \<Rightarrow> char" where
  "digit_char d = ''0123456789'' ! d"

text \<open>\<open>str(n)\<close> and \<open>f"{n}"\<close> of an integer: its decimal text, with a minus sign.\<close>

fun digits :: "nat \<Rightarrow> string" where
  "digits n = (if n < 10 then [digit_char n] else digits (n div 10) @ [digit_char (n mod 10)])"

definition py_str :: "int \<Rightarrow> string" where
  "py_str i = (if i < 0 then CHR ''-'' # digits (nat (- i)) else digits (nat i))"

text \<open>
  \<open>int(s)\<close> of a string, base 10: white space around the literal is skipped (tab, line
  feed, vertical tab, form feed, carriage return, space, U+0085 and U+00A0 below 256),
  one sign may come first, then decimal digits, where single underscores may stand
  between two digits. Anything else raises \<open>ValueError\<close>: the value \<open>None\<close> here.
\<close>

definition is_space :: "char \<Rightarrow> bool" where
  "is_space c = ((of_char c :: nat) \<in> {9, 10, 11, 12, 13, 32, 133, 160})"

fun digits_tail :: "nat \<Rightarrow> string \<Rightarrow> nat option" where
  "digits_tail acc [] = Some acc"
| "digits_tail acc [c] = (if is_decimal c then Some (10 * acc + digit_value c) else None)"
| "digits_tail acc (c # d # cs) =
     (if is_decimal c then digits_tail (10 * acc + digit_value c) (d # cs)
      else if c = CHR ''_'' \<and> is_decimal d then digits_tail (10 * acc + digit_value d) cs
      else None)"

definition unsigned :: "string \<Rightarrow> nat option" where
  "unsigned s = (case s of [] \<Rightarrow> None
                 | c # cs \<Rightarrow> if is_decimal c then digits_tail (digit_value c) cs else None)"

definition strip :: "string \<Rightarrow> string" where
  "strip s = rev (dropWhile is_space (rev (dropWhile is_space s)))"

definition py_int :: "string \<Rightarrow> int option" where
  "py_int s = (case strip s of [] \<Rightarrow> None
     | c # cs \<Rightarrow> if c = CHR ''-'' then map_option (\<lambda>n. - int n) (unsigned cs)
                else if c = CHR ''+'' then map_option int (unsigned cs)
                else map_option int (unsigned (c # cs)))"

text \<open>
  \<open>s.isdigit()\<close>: the string is not empty and all its characters are digits. Below 256
  the digits are \<open>0\<close> to \<open>9\<close> and the superscripts U+00B2, U+00B3 and U+00B9, which are
  digits but not decimal digits: \<open>int\<close> does not read them.
\<close>

definition is_digit :: "char \<Rightarrow> bool" where
  "is_digit c = (is_decimal c \<or> (of_char c :: nat) \<in> {178, 179, 185})"

definition isdigit :: "string \<Rightarrow> bool" where
  "isdigit s = (s \<noteq> [] \<and> list_all is_digit s)"

text \<open>
  \<open>str(x).lower()\<close> of the answer of a dialog: \<open>str(None)\<close> is the text \<open>None\<close>. Only the
  letters A to Z are lowered; the answer is only ever compared with \<open>y\<close> and \<open>n\<close>.
\<close>

definition lower_char :: "char \<Rightarrow> char" where
  "lower_char c =
     (case map_of (zip ''ABCDEFGHIJKLMNOPQRSTUVWXYZ'' ''abcdefghijklmnopqrstuvwxyz'') c of
        Some l \<Rightarrow> l | None \<Rightarrow> c)"

definition str_lower :: "string option \<Rightarrow> string" where
  "str_lower a = map lower_char (case a of None \<Rightarrow> ''None'' | Some s \<Rightarrow> s)"

section \<open>The state of the program\<close>

type_synonym pos = "real \<times> real"

text \<open>\<open>Turtle.distance\<close>: the Euclidean distance of two positions.\<close>

definition distance :: "pos \<Rightarrow> pos \<Rightarrow> real" where
  "distance p q = sqrt ((fst q - fst p)\<^sup>2 + (snd q - snd p)\<^sup>2)"

text \<open>
  The class \<open>Snake\<close> (snake.py) and the class \<open>Food\<close> (food.py) are not among the
  sources. \<open>main\<close> reads two attributes of a snake, the list \<open>turtles\<close> of its segments
  and the segment \<open>head\<close>; a segment is modelled by its position. What the methods of
  the two classes compute is a parameter of the model (\<open>tick_input\<close>,
  \<open>session_input\<close>).
\<close>

record Snake =
  turtles :: "pos list"
  head :: pos

datatype message =
    Welcome
  | Icon
  | Goodbye
  | Hint
  | Current_score int int
  | Game_over_text int
  | Invalid_entry "string option"

text \<open>
  What the program does to the world, in the order it does it: the calls on the screen
  and on turtles, the pauses (in milliseconds), and the writes of the score file.
\<close>

datatype effect =
    Sleep nat
  | Bgcolor string
  | Title string
  | Setup nat nat
  | Tracer nat
  | Textinput string string
  | Clear_screen
  | Update
  | Listen
  | Onkey string
  | Protocol_on_close
  | Destroy
  | Exitonclick
  | Bye
  | New_turtle string
  | Turtle_setup
  | Goto int int
  | Color string
  | Write message
  | Clear_text
  | Move_snake
  | Hide_snake
  | Snake_extend
  | Apear_food
  | Hide_food
  | File_write string

datatype error = FileNotFoundError | ValueError | TclError

text \<open>
  The globals \<open>game_on\<close> and \<open>is_on_close\<close>, the objects of a round (\<open>snake\<close>, \<open>food\<close>,
  the attribute \<open>score\<close> of the \<open>Score\<close> object), the file \<open>last-score.txt\<close> (\<open>None\<close>
  when it does not exist), whether the Tk window still exists, and the effects so far.
\<close>

record game =
  game_on :: bool
  is_on_close :: bool
  alive :: bool
  score_file :: "string option"
  score :: int
  snake :: Snake
  food :: pos
  trace :: "effect list"

text \<open>
  What the surroundings contribute to one pass of the main loop: what \<open>snake.move\<close>
  and \<open>snake.snake_extend\<close> do to the snake, where \<open>food.apear_food\<close> puts the food, and
  how many clicks on the window's close button are handled while \<open>snake.move\<close>
  refreshes the window and while \<open>game_over\<close> updates it.
\<close>

record tick_input =
  move :: "Snake \<Rightarrow> Snake"
  closes_move :: nat
  food_pos :: pos
  snake_extend :: "Snake \<Rightarrow> Snake"
  closes_over :: nat

text \<open>
  What the surroundings contribute to one call of \<open>main\<close>: the answers of the speed
  dialog in order (\<open>None\<close> is Cancel), the snake that \<open>Snake(color, length, speed)\<close>
  builds, the first place of the food, the clicks on the close button handled while
  the start screen is shown, and the passes of the main loop.
\<close>

record session_input =
  speeds :: "string option list"
  new_snake :: "int \<Rightarrow> Snake"
  first_food :: pos
  closes_start :: nat
  ticks :: "tick_input list"

text \<open>
  One pass of the replay loop: the answer of the dialog, the clicks on the close button
  handled while the dialog is open, and the round played when the answer is yes.
\<close>

record replay_input =
  answer :: "string option"
  closes_prompt :: nat
  session :: session_input

section \<open>Effects\<close>

text \<open>Statements in sequence: an exception ends the sequence.\<close>

fun seq :: "('s \<Rightarrow> error + 's) list \<Rightarrow> 's \<Rightarrow> error + 's" where
  "seq [] s = Inr s"
| "seq (f # fs) s = (case f s of Inl e \<Rightarrow> Inl e | Inr s' \<Rightarrow> seq fs s')"

definition log :: "effect list \<Rightarrow> game \<Rightarrow> game" where
  "log es g = g\<lparr>trace := trace g @ es\<rparr>"

text \<open>
  Calls on the screen or on a turtle. Once the window is destroyed the canvas is gone
  and such a call fails with Tk's error.
\<close>

definition canvas :: "effect list \<Rightarrow> game \<Rightarrow> error + game" where
  "canvas es g = (if alive g then Inr (log es g) else Inl TclError)"

definition sleep :: "nat \<Rightarrow> game \<Rightarrow> error + game" where
  "sleep ms g = Inr (log [Sleep ms] g)"

definition show_goodbye_message :: "game \<Rightarrow> error + game" where
  "show_goodbye_message = canvas [Clear_screen, Bgcolor ''black'', Write Goodbye]"

text \<open>The handler of the window's close button (main.py, \<open>on_close\<close>).\<close>

definition on_close :: "game \<Rightarrow> error + game" where
  "on_close g =
     (case (if \<not> game_on g \<and> is_on_close g
            then Inr (log [Destroy] (g\<lparr>alive := False\<rparr>))
            else show_goodbye_message g) of
        Inl e \<Rightarrow> Inl e
      | Inr g' \<Rightarrow> Inr (g'\<lparr>game_on := False, is_on_close := True\<rparr>))"

text \<open>
  One click on the close button, handled by Tk's event loop: a destroyed window gets
  no events, and Tk reports an exception of a handler without passing it on.
\<close>

definition click :: "game \<Rightarrow> game" where
  "click g = (if alive g then (case on_close g of Inl e \<Rightarrow> g | Inr g' \<Rightarrow> g') else g)"

text \<open>\<open>window.update()\<close>: pending events are handled, here \<open>n\<close> clicks on the close button.\<close>

definition window_update :: "nat \<Rightarrow> game \<Rightarrow> error + game" where
  "window_update n g = (if alive g then Inr ((click ^^ n) (log [Update] g)) else Inl TclError)"

section \<open>scoreboard.py\<close>

definition file_write :: "string \<Rightarrow> game \<Rightarrow> game" where
  "file_write s g = log [File_write s] (g\<lparr>score_file := Some s\<rparr>)"

text \<open>\<open>Score.__init__\<close>: the file is created with the text \<open>0\<close> when it does not exist.\<close>

definition Score_init :: "game \<Rightarrow> error + game" where
  "Score_init = seq
     [canvas [New_turtle ''''],
      (\<lambda>g. Inr (if score_file g = None then file_write ''0'' g else g)),
      canvas [Turtle_setup, Color ''violet'', Goto 0 350],
      (\<lambda>g. Inr (g\<lparr>score := 0\<rparr>))]"

definition save_score :: "game \<Rightarrow> game" where
  "save_score g = file_write (py_str (score g)) g"

definition read_file_score :: "game \<Rightarrow> error + int" where
  "read_file_score g =
     (case score_file g of
        None \<Rightarrow> Inl FileNotFoundError
      | Some s \<Rightarrow> (case py_int s of None \<Rightarrow> Inl ValueError | Some n \<Rightarrow> Inr n))"

text \<open>\<open>Score.score_update\<close>; the record update of the field \<open>score\<close> has that name already.\<close>

definition Score_update :: "game \<Rightarrow> error + game" where
  "Score_update = seq
     [canvas [Clear_text],
      (\<lambda>g. case read_file_score g of
              Inl e \<Rightarrow> Inl e
            | Inr best \<Rightarrow> canvas [Write (Current_score (score g) best)] g)]"

definition game_over :: "nat \<Rightarrow> game \<Rightarrow> error + game" where
  "game_over n = seq
     [(\<lambda>g. case read_file_score g of
              Inl e \<Rightarrow> Inl e
            | Inr best \<Rightarrow> Inr (if score g > best then save_score g else g)),
      canvas [Goto 0 0, Bgcolor ''crimson'', Color ''peach puff''],
      (\<lambda>g. case read_file_score g of
              Inl e \<Rightarrow> Inl e
            | Inr best \<Rightarrow> canvas [Write (Game_over_text best)] g),
      canvas [Goto (- 470) 330, Write Icon, Goto (- 470) (- 330), Write Icon,
              Goto 430 330, Write Icon, Goto 430 (- 330), Write Icon],
      window_update n]"

definition hide_score :: "game \<Rightarrow> error + game" where
  "hide_score = canvas [Clear_text]"

section \<open>main.py: one pass of the main loop\<close>

definition out_of_bounds :: "pos \<Rightarrow> bool" where
  "out_of_bounds p = ((fst p > 485 \<or> fst p < - 485) \<or> (snd p > 385 \<or> snd p < - 385))"

text \<open>\<open>snake.move(window=WINDOW)\<close>, which refreshes the window.\<close>

definition snake_move :: "tick_input \<Rightarrow> game \<Rightarrow> error + game" where
  "snake_move i g =
     (if alive g
      then Inr ((click ^^ closes_move i) (log [Move_snake] (g\<lparr>snake := move i (snake g)\<rparr>)))
      else Inl TclError)"

text \<open>
  The block that both collision branches run: \<open>game_on = False\<close>, a pause, the three
  objects are hidden, and \<open>score.game_over\<close>.
\<close>

definition collision :: "tick_input \<Rightarrow> game \<Rightarrow> error + game" where
  "collision i = seq
     [(\<lambda>g. Inr (g\<lparr>game_on := False\<rparr>)),
      sleep 300,
      canvas [Hide_snake],
      hide_score,
      canvas [Hide_food],
      game_over (closes_over i)]"

text \<open>The branch of eating: \<open>food.apear_food()\<close>, \<open>snake.snake_extend()\<close>, \<open>score.score += 1\<close>.\<close>

definition eat :: "tick_input \<Rightarrow> game \<Rightarrow> error + game" where
  "eat i = seq
     [(\<lambda>g. canvas [Apear_food] (g\<lparr>food := food_pos i\<rparr>)),
      (\<lambda>g. canvas [Snake_extend] (g\<lparr>snake := snake_extend i (snake g)\<rparr>)),
      (\<lambda>g. Inr (g\<lparr>score := score g + 1\<rparr>))]"

text \<open>\<open>for segment in snake.turtles[:-2]\<close>, left at the first segment near the head.\<close>

fun self_collision :: "tick_input \<Rightarrow> pos list \<Rightarrow> game \<Rightarrow> error + game" where
  "self_collision i [] g = Inr g"
| "self_collision i (segment # segments) g =
     (if distance (head (snake g)) segment < 10 then collision i g
      else self_collision i segments g)"

text \<open>The slice \<open>xs[:-2]\<close>: all but the last two entries, nothing for a shorter list.\<close>

definition but_last_two :: "'a list \<Rightarrow> 'a list" where
  "but_last_two xs = take (length xs - 2) xs"

definition checks :: "tick_input \<Rightarrow> game \<Rightarrow> error + game" where
  "checks i g =
     (if out_of_bounds (head (snake g)) then collision i g
      else if distance (head (snake g)) (food g) < 15 then eat i g
      else self_collision i (but_last_two (turtles (snake g))) g)"

definition tick :: "tick_input \<Rightarrow> game \<Rightarrow> error + game" where
  "tick i = seq
     [sleep 50,
      Score_update,
      snake_move i,
      checks i,
      canvas [Listen, Onkey ''Down'', Onkey ''Up'', Onkey ''Left'', Onkey ''Right'']]"

text \<open>
  \<open>while game_on\<close>: the loop ends when the flag is down. With no pass left to run while
  the flag is up the loop has not ended: the value \<open>None\<close>.
\<close>

fun play :: "tick_input list \<Rightarrow> game \<Rightarrow> (error + game) option" where
  "play [] g = (if game_on g then None else Some (Inr g))"
| "play (i # rest) g =
     (if game_on g
      then (case tick i g of Inl e \<Rightarrow> Some (Inl e) | Inr g' \<Rightarrow> play rest g')
      else Some (Inr g))"

section \<open>main.py: a round and the replay loop\<close>

text \<open>
  The condition of the validation loop,
  \<open>not str(speed).isdigit() or int(str(speed)) > 20 or int(str(speed)) < 10\<close>,
  evaluated from left to right.
\<close>

definition speed_invalid :: "string \<Rightarrow> error + bool" where
  "speed_invalid speed =
     (if \<not> isdigit speed then Inr True
      else (case py_int speed of
              None \<Rightarrow> Inl ValueError
            | Some n \<Rightarrow> Inr (n > 20 \<or> n < 10)))"

definition show_hint :: "game \<Rightarrow> error + game" where
  "show_hint = seq [canvas [Write Hint], window_update 0, sleep 1500, canvas [Clear_text]]"

text \<open>
  The speed dialog and the validation loop. The result is the accepted text, or \<open>None\<close>
  when the dialog was cancelled and \<open>main\<close> returns \<open>False\<close>. With no answer left the
  dialog stays open: the value \<open>None\<close> of the outer option.
\<close>

fun speed_prompt ::
  "string \<Rightarrow> string option list \<Rightarrow> game \<Rightarrow> (error + string option \<times> game) option" where
  "speed_prompt prompt [] g =
     (case canvas [Textinput ''Speed of Snake!'' prompt] g of
        Inl e \<Rightarrow> Some (Inl e)
      | Inr g1 \<Rightarrow> None)"
| "speed_prompt prompt (a # rest) g =
     (case canvas [Textinput ''Speed of Snake!'' prompt] g of
        Inl e \<Rightarrow> Some (Inl e)
      | Inr g1 \<Rightarrow>
          (case a of
             None \<Rightarrow>
               (case show_goodbye_message g1 of
                  Inl e \<Rightarrow> Some (Inl e)
                | Inr g2 \<Rightarrow> Some (Inr (None, g2)))
           | Some speed \<Rightarrow>
               (case speed_invalid speed of
                  Inl e \<Rightarrow> Some (Inl e)
                | Inr False \<Rightarrow> Some (Inr (Some speed, g1))
                | Inr True \<Rightarrow>
                    (case show_hint g1 of
                       Inl e \<Rightarrow> Some (Inl e)
                     | Inr g2 \<Rightarrow>
                         speed_prompt ''Enter speed of snake from [ 10 to 20 ] <<<||'' rest g2))))"

definition show_start_screen :: "nat \<Rightarrow> game \<Rightarrow> error + game" where
  "show_start_screen n = seq
     [canvas [New_turtle ''lavender'', Goto 0 330, Write Welcome, Color ''violet'',
              Goto (- 470) 330, Write Icon, Goto (- 470) (- 330), Write Icon,
              Goto 430 330, Write Icon, Goto 430 (- 330), Write Icon],
      window_update n,
      sleep 1000,
      canvas [Clear_text]]"

text \<open>
  From the registration of the close handler to the first food: the handler, the start
  screen, the three objects (\<open>int(speed)\<close> is the snake's speed) and \<open>food.apear_food()\<close>.
\<close>

definition start_round :: "session_input \<Rightarrow> string \<Rightarrow> game \<Rightarrow> error + game" where
  "start_round inp speed = seq
     [canvas [Protocol_on_close],
      show_start_screen (closes_start inp),
      canvas [New_turtle ''lime''],
      (\<lambda>g. case py_int speed of
              None \<Rightarrow> Inl ValueError
            | Some n \<Rightarrow> canvas [New_turtle ''plum''] (g\<lparr>snake := new_snake inp n\<rparr>)),
      Score_init,
      (\<lambda>g. canvas [Apear_food] (g\<lparr>food := first_food inp\<rparr>))]"

definition main :: "session_input \<Rightarrow> game \<Rightarrow> (error + bool \<times> game) option" where
  "main inp g =
     (case canvas [Bgcolor ''slate blue'', Title ''Anas GB!'', Setup 1000 800, Tracer 0]
             (g\<lparr>game_on := True\<rparr>) of
        Inl e \<Rightarrow> Some (Inl e)
      | Inr g1 \<Rightarrow>
          (case speed_prompt ''Enter speed of snake from [10] to [20] <<!!! '' (speeds inp) g1 of
             None \<Rightarrow> None
           | Some (Inl e) \<Rightarrow> Some (Inl e)
           | Some (Inr (None, g2)) \<Rightarrow> Some (Inr (False, g2))
           | Some (Inr (Some speed, g2)) \<Rightarrow>
               (case start_round inp speed g2 of
                  Inl e \<Rightarrow> Some (Inl e)
                | Inr g3 \<Rightarrow>
                    (case play (ticks inp) g3 of
                       None \<Rightarrow> None
                     | Some (Inl e) \<Rightarrow> Some (Inl e)
                     | Some (Inr g4) \<Rightarrow>
                         Some (Inr (\<not> is_on_close g4,
                                    g4\<lparr>snake := (snake g4)\<lparr>turtles := []\<rparr>\<rparr>))))))"

definition show_invalid_entry :: "string option \<Rightarrow> game \<Rightarrow> error + game" where
  "show_invalid_entry a = seq
     [canvas [Clear_screen, Bgcolor ''black'', Write (Invalid_entry a)],
      window_update 0,
      sleep 1300,
      canvas [Clear_text]]"

text \<open>
  \<open>while is_new_game\<close> of the module: the replay dialog is opened only while
  \<open>is_on_close\<close> is down; the value that \<open>main\<close> returns at a replay is dropped.
\<close>

fun replay :: "replay_input list \<Rightarrow> game \<Rightarrow> (error + game) option" where
  "replay [] g =
     (if is_on_close g then Some (Inr g)
      else (case canvas [Textinput ''New Game! ''
                 ''Do you want to play again? Type [ Y ] to start or [ N ] to exit!''] g of
              Inl e \<Rightarrow> Some (Inl e)
            | Inr g1 \<Rightarrow> None))"
| "replay (r # rest) g =
     (if is_on_close g then Some (Inr g)
      else (case canvas [Textinput ''New Game! ''
                 ''Do you want to play again? Type [ Y ] to start or [ N ] to exit!''] g of
              Inl e \<Rightarrow> Some (Inl e)
            | Inr g1 \<Rightarrow>
                (let g2 = (click ^^ closes_prompt r) g1 in
                 if str_lower (answer r) = ''y''
                 then (case canvas [Clear_screen] g2 of
                         Inl e \<Rightarrow> Some (Inl e)
                       | Inr g3 \<Rightarrow>
                           (case main (session r) g3 of
                              None \<Rightarrow> None
                            | Some (Inl e) \<Rightarrow> Some (Inl e)
                            | Some (Inr (b, g4)) \<Rightarrow> replay rest g4))
                 else if str_lower (answer r) = ''n'' \<or> answer r = None
                 then (case show_goodbye_message g2 of
                         Inl e \<Rightarrow> Some (Inl e)
                       | Inr g3 \<Rightarrow> Some (Inr g3))
                 else (case show_invalid_entry (answer r) g2 of
                         Inl e \<Rightarrow> Some (Inl e)
                       | Inr g3 \<Rightarrow> replay rest g3))))"

text \<open>
  \<open>WINDOW.exitonclick()\<close>: Tk's main loop runs until the window is gone. It handles \<open>n\<close>
  clicks on the close button; a click on the canvas, if one comes while the window is
  still there, ends the program through \<open>bye\<close>. Without either the loop runs on: the
  value \<open>None\<close>.
\<close>

definition exitonclick :: "nat \<Rightarrow> bool \<Rightarrow> game \<Rightarrow> (error + game) option" where
  "exitonclick n on_canvas g =
     (case canvas [Exitonclick] g of
        Inl e \<Rightarrow> Some (Inl e)
      | Inr g1 \<Rightarrow>
          (let g2 = (click ^^ n) g1 in
           if \<not> alive g2 then Some (Inr g2)
           else if on_canvas then Some (Inr (log [Bye] (g2\<lparr>alive := False\<rparr>)))
           else None))"

text \<open>
  The module from the first call of \<open>main\<close> on: the replay loop when \<open>main\<close> returned
  \<open>True\<close>, then \<open>WINDOW.exitonclick()\<close>.
\<close>

definition program ::
  "session_input \<Rightarrow> replay_input list \<Rightarrow> nat \<Rightarrow> bool \<Rightarrow> game \<Rightarrow> (error + game) option" where
  "program first rs n on_canvas g =
     (case main first g of
        None \<Rightarrow> None
      | Some (Inl e) \<Rightarrow> Some (Inl e)
      | Some (Inr (b, g1)) \<Rightarrow>
          (if b
           then (case replay rs g1 of
                   None \<Rightarrow> None
                 | Some (Inl e) \<Rightarrow> Some (Inl e)
                 | Some (Inr g2) \<Rightarrow> exitonclick n on_canvas g2)
           else exitonclick n on_canvas g1))"

text \<open>
  The state when the module starts: \<open>is_on_close = False\<close>, the window exists, nothing
  has happened yet; \<open>f\<close> is the score file as the last run left it.
\<close>

definition initial :: "string option \<Rightarrow> game" where
  "initial f =
     \<lparr>game_on = False, is_on_close = False, alive = True, score_file = f, score = 0,
      snake = \<lparr>turtles = [], head = (0, 0)\<rparr>, food = (0, 0), trace = []\<rparr>"

text \<open>How many effects of a kind have happened.\<close>

definition summaries :: "game \<Rightarrow> nat" where
  "summaries g = length (filter (\<lambda>e. case e of Write (Game_over_text b) \<Rightarrow> True | _ \<Rightarrow> False) (trace g))"

definition destroys :: "game \<Rightarrow> nat" where
  "destroys g = length (filter (\<lambda>e. e = Destroy) (trace g))"

text \<open>
  The window and the record of its destruction agree: \<open>tk_window.destroy()\<close> was called
  at most once, and not at all while the window exists.
\<close>

definition window_ok :: "game \<Rightarrow> bool" where
  "window_ok g = (destroys g \<le> (if alive g then 0 else 1))"

text \<open>What every step of the program keeps: a close flag that is up, and \<open>window_ok\<close>.\<close>

definition keeps :: "game \<Rightarrow> game \<Rightarrow> bool" where
  "keeps g g' = ((is_on_close g \<longrightarrow> is_on_close g') \<and> (window_ok g \<longrightarrow> window_ok g'))"

section \<open>Example inputs\<close>

text \<open>
  A round in progress with a snake of four segments whose head is the last entry of
  \<open>turtles\<close>, and a pass of the loop in which \<open>snake.move\<close> leaves the snake \<open>s\<close> and no
  click on the close button arrives.
\<close>

definition example_game :: "string option \<Rightarrow> int \<Rightarrow> game" where
  "example_game f n =
     (initial f)\<lparr>game_on := True, score := n,
       snake := \<lparr>turtles = [(0, 0), (20, 0), (40, 0), (60, 0)], head = (60, 0)\<rparr>,
       food := (200, 100)\<rparr>"

definition example_tick :: "Snake \<Rightarrow> tick_input" where
  "example_tick s =
     \<lparr>move = (\<lambda>_. s), closes_move = 0, food_pos = (- 100, 50),
      snake_extend = (\<lambda>t. t\<lparr>turtles := (0, 0) # turtles t\<rparr>), closes_over = 0\<rparr>"

definition example_session :: "string option list \<Rightarrow> tick_input list \<Rightarrow> session_input" where
  "example_session answers passes =
     \<lparr>speeds = answers,
      new_snake = (\<lambda>speed. \<lparr>turtles = [(0, 0), (20, 0), (40, 0), (60, 0)], head = (60, 0)\<rparr>),
      first_food = (200, 100), closes_start = 0, ticks = passes\<rparr>"

section \<open>Facts about the Python values\<close>

declare digits.simps [simp del]

lemma digit_value_char: "d < 10 \<Longrightarrow> digit_value (digit_char d) = d \<and> is_decimal (digit_char d)"
proof -
  assume "d < 10"
  then have "d \<in> {0,1,2,3,4,5,6,7,8,9}" by auto
  then show ?thesis by (auto simp: digit_char_def digit_value_def is_decimal_def)
qed

lemma digits_tail_append:
  "list_all is_decimal ds \<Longrightarrow> is_decimal d \<Longrightarrow>
   digits_tail acc (ds @ [d]) = map_option (\<lambda>a. 10 * a + digit_value d) (digits_tail acc ds)"
  by (induction acc ds rule: digits_tail.induct) auto

lemma digits_decimal: "list_all is_decimal (digits n)"
  by (induction n rule: digits.induct) (subst digits.simps, simp add: digit_value_char)

lemma digits_not_Nil: "digits n \<noteq> []"
  by (induction n rule: digits.induct) (subst digits.simps, simp)

lemma unsigned_append:
  assumes "list_all is_decimal ds" "ds \<noteq> []" "is_decimal d"
  shows "unsigned (ds @ [d]) = map_option (\<lambda>a. 10 * a + digit_value d) (unsigned ds)"
proof -
  obtain c cs where ds: "ds = c # cs" using assms(2) by (cases ds) auto
  with assms show ?thesis by (simp add: unsigned_def digits_tail_append)
qed

lemma unsigned_digits: "unsigned (digits n) = Some n"
proof (induction n rule: digits.induct)
  case (1 n)
  show ?case
  proof (cases "n < 10")
    case True
    then show ?thesis
      using digit_value_char [of n] by (subst digits.simps) (simp add: unsigned_def)
  next
    case False
    have d: "is_decimal (digit_char (n mod 10))" "digit_value (digit_char (n mod 10)) = n mod 10"
      using digit_value_char [of "n mod 10"] by simp_all
    have "unsigned (digits (n div 10) @ [digit_char (n mod 10)]) =
          map_option (\<lambda>a. 10 * a + digit_value (digit_char (n mod 10))) (unsigned (digits (n div 10)))"
      by (rule unsigned_append [OF digits_decimal digits_not_Nil d(1)])
    with False 1 d show ?thesis by (subst digits.simps) simp
  qed
qed

lemma decimal_not_space: "is_decimal c \<Longrightarrow> \<not> is_space c \<and> c \<noteq> CHR ''-'' \<and> c \<noteq> CHR ''+''"
  by (auto simp: is_decimal_def is_space_def)

lemma strip_id: "s \<noteq> [] \<Longrightarrow> \<not> is_space (hd s) \<Longrightarrow> \<not> is_space (last s) \<Longrightarrow> strip s = s"
proof -
  assume a: "s \<noteq> []" "\<not> is_space (hd s)" "\<not> is_space (last s)"
  then have 1: "dropWhile is_space s = s" by (cases s) auto
  from a have "rev s \<noteq> []" "\<not> is_space (hd (rev s))" by (simp_all add: hd_rev)
  then have 2: "dropWhile is_space (rev s) = rev s" by (cases "rev s") auto
  show ?thesis by (simp add: strip_def 1 2)
qed

lemma digits_ends: "is_decimal (hd (digits n)) \<and> is_decimal (last (digits n))"
  using digits_decimal [of n] digits_not_Nil [of n]
  by (cases "digits n") (auto simp: list_all_iff)

lemma py_int_py_str: "py_int (py_str n) = Some n"
proof (cases "n < 0")
  case True
  have "strip (CHR ''-'' # digits (nat (- n))) = CHR ''-'' # digits (nat (- n))"
    using digits_ends [of "nat (- n)"] digits_not_Nil [of "nat (- n)"]
    by (intro strip_id) (auto simp: is_space_def dest: decimal_not_space)
  with True show ?thesis by (simp add: py_int_def py_str_def unsigned_digits)
next
  case False
  obtain c cs where d: "digits (nat n) = c # cs" using digits_not_Nil [of "nat n"] by (cases "digits (nat n)") auto
  have c: "is_decimal c" using digits_ends [of "nat n"] d by simp
  have "strip (digits (nat n)) = digits (nat n)"
    using digits_ends [of "nat n"] digits_not_Nil [of "nat n"]
    by (intro strip_id) (auto dest: decimal_not_space)
  with False d c decimal_not_space [OF c] unsigned_digits [of "nat n"] show ?thesis
    by (simp add: py_int_def py_str_def)
qed

section \<open>Facts about effects and the score file\<close>

lemmas effect_defs = log_def canvas_def sleep_def show_goodbye_message_def file_write_def

lemma summaries_log: "summaries (log es g) = summaries g + length (filter (\<lambda>e. case e of Write (Game_over_text b) \<Rightarrow> True | _ \<Rightarrow> False) es)"
  by (simp add: summaries_def log_def)

lemma click_frame:
  "score_file (click g) = score_file g" "score (click g) = score g"
  "snake (click g) = snake g" "food (click g) = food g" "summaries (click g) = summaries g"
  by (simp_all add: click_def on_close_def effect_defs summaries_def)

lemma clicks_frame [simp]:
  "score_file ((click ^^ n) g) = score_file g" "score ((click ^^ n) g) = score g"
  "snake ((click ^^ n) g) = snake g" "food ((click ^^ n) g) = food g"
  "summaries ((click ^^ n) g) = summaries g"
  by (induction n) (simp_all add: click_frame)

lemma click_flags:
  "alive g \<Longrightarrow> \<not> game_on (click g) \<and> is_on_close (click g)"
  "\<not> alive g \<Longrightarrow> click g = g"
  "is_on_close g \<Longrightarrow> is_on_close (click g)"
  "\<not> game_on g \<Longrightarrow> \<not> game_on (click g)"
  by (simp_all add: click_def on_close_def effect_defs)

lemma clicks_game_on: "\<not> game_on g \<Longrightarrow> \<not> game_on ((click ^^ n) g)"
  by (induction n) (simp_all add: click_flags)

lemma clicks_is_on_close: "is_on_close g \<Longrightarrow> is_on_close ((click ^^ n) g)"
  by (induction n) (simp_all add: click_flags)

lemma read_file_score_simps [simp]:
  "read_file_score (log es g) = read_file_score g"
  "read_file_score ((click ^^ n) g) = read_file_score g"
  "read_file_score (g\<lparr>game_on := b\<rparr>) = read_file_score g"
  "read_file_score (g\<lparr>snake := s\<rparr>) = read_file_score g"
  by (simp_all add: read_file_score_def log_def)

lemma read_save_score: "read_file_score (save_score g) = Inr (score g)"
  by (simp add: read_file_score_def save_score_def file_write_def log_def py_int_py_str)


declare seq.simps [simp del]

lemma summaries_update [simp]:
  "summaries (g\<lparr>game_on := a\<rparr>) = summaries g" "summaries (g\<lparr>is_on_close := a\<rparr>) = summaries g"
  "summaries (g\<lparr>alive := a\<rparr>) = summaries g" "summaries (g\<lparr>score_file := f\<rparr>) = summaries g"
  "summaries (g\<lparr>score := k\<rparr>) = summaries g" "summaries (g\<lparr>snake := s\<rparr>) = summaries g"
  "summaries (g\<lparr>food := p\<rparr>) = summaries g"
  by (simp_all add: summaries_def)

lemma seq_Cons_Inr: "seq (f # fs) g = Inr g' \<longleftrightarrow> (\<exists>g1. f g = Inr g1 \<and> seq fs g1 = Inr g')"
  by (simp add: seq.simps split: sum.splits)

lemma seq_Nil_Inr: "seq [] g = Inr g' \<longleftrightarrow> g' = g"
  by (auto simp: seq.simps)

lemma canvas_Inr: "canvas es g = Inr g' \<longleftrightarrow> alive g \<and> g' = log es g"
  by (auto simp: canvas_def)

lemma sleep_Inr: "sleep ms g = Inr g' \<longleftrightarrow> g' = log [Sleep ms] g"
  by (auto simp: sleep_def)

lemma window_update_Inr:
  "window_update n g = Inr g' \<longleftrightarrow> alive g \<and> g' = (click ^^ n) (log [Update] g)"
  by (auto simp: window_update_def)

lemma log_fields [simp]:
  "score_file (log es g) = score_file g" "score (log es g) = score g"
  "snake (log es g) = snake g" "food (log es g) = food g"
  "alive (log es g) = alive g" "game_on (log es g) = game_on g"
  "is_on_close (log es g) = is_on_close g" "trace (log es g) = trace g @ es"
  by (simp_all add: log_def)

lemma save_score_fields [simp]:
  "score_file (save_score g) = Some (py_str (score g))" "score (save_score g) = score g"
  "snake (save_score g) = snake g" "food (save_score g) = food g"
  "alive (save_score g) = alive g" "game_on (save_score g) = game_on g"
  "is_on_close (save_score g) = is_on_close g"
  "summaries (save_score g) = summaries g"
  by (simp_all add: save_score_def file_write_def summaries_log)

lemma read_Inr_cases:
  "(case read_file_score g of Inl e \<Rightarrow> Inl e | Inr best \<Rightarrow> f best) = Inr g' \<longleftrightarrow>
   (\<exists>best. read_file_score g = Inr best \<and> f best = Inr g')"
  by (simp split: sum.splits)

lemmas Inr_simps = seq_Cons_Inr seq_Nil_Inr canvas_Inr sleep_Inr window_update_Inr read_Inr_cases

lemma log_log: "log es2 (log es1 g) = log (es1 @ es2) g"
  by (simp add: log_def)

lemma game_over_eq:
  "game_over n g =
     (case read_file_score g of
        Inl e \<Rightarrow> Inl e
      | Inr best \<Rightarrow>
          if alive g
          then Inr ((click ^^ n)
                 (log [Goto 0 0, Bgcolor ''crimson'', Color ''peach puff'',
                       Write (Game_over_text (max best (score g))),
                       Goto (- 470) 330, Write Icon, Goto (- 470) (- 330), Write Icon,
                       Goto 430 330, Write Icon, Goto 430 (- 330), Write Icon, Update]
                    (if score g > best then save_score g else g)))
          else Inl TclError)"
proof (cases "read_file_score g")
  case (Inl e)
  then show ?thesis by (simp add: game_over_def seq.simps)
next
  case (Inr best)
  show ?thesis
  proof (cases "score g > best")
    case True
    then show ?thesis
      by (simp add: game_over_def seq.simps canvas_def window_update_def Inr read_save_score
          log_log max_def)
  next
    case False
    then show ?thesis
      by (simp add: game_over_def seq.simps canvas_def window_update_def Inr log_log max_def)
  qed
qed


lemma game_over_result:
  assumes "game_over n g = Inr g'"
  shows "\<exists>best. read_file_score g = Inr best \<and>
           score_file g' = (if score g > best then Some (py_str (score g)) else score_file g) \<and>
           read_file_score g' = Inr (max best (score g)) \<and>
           summaries g' = summaries g + 1 \<and>
           score g' = score g \<and> snake g' = snake g \<and> food g' = food g \<and> alive g"
proof (cases "read_file_score g")
  case (Inl e)
  with assms show ?thesis by (simp add: game_over_eq)
next
  case (Inr best)
  with assms have a: "alive g" by (simp add: game_over_eq split: if_splits)
  with assms Inr have g': "g' = (click ^^ n)
                 (log [Goto 0 0, Bgcolor ''crimson'', Color ''peach puff'',
                       Write (Game_over_text (max best (score g))),
                       Goto (- 470) 330, Write Icon, Goto (- 470) (- 330), Write Icon,
                       Goto 430 330, Write Icon, Goto 430 (- 330), Write Icon, Update]
                    (if score g > best then save_score g else g))"
    by (simp add: game_over_eq)
  show ?thesis
  proof (cases "score g > best")
    case True
    then show ?thesis using Inr a by (simp add: g' summaries_log read_save_score max_def)
  next
    case False
    then show ?thesis using Inr a by (simp add: g' summaries_log max_def)
  qed
qed


lemma Score_update_eq:
  "Score_update g =
     (if alive g
      then (case read_file_score g of
              Inl e \<Rightarrow> Inl e
            | Inr best \<Rightarrow> Inr (log [Clear_text, Write (Current_score (score g) best)] g))
      else Inl TclError)"
  by (simp add: Score_update_def seq.simps canvas_def log_log split: sum.splits)

lemma collision_eq:
  "collision i g =
     (if alive g
      then (case read_file_score g of
              Inl e \<Rightarrow> Inl e
            | Inr best \<Rightarrow>
                game_over (closes_over i)
                  (log [Sleep 300, Hide_snake, Clear_text, Hide_food] (g\<lparr>game_on := False\<rparr>)))
      else Inl TclError)"
  by (simp add: collision_def seq.simps canvas_def sleep_def hide_score_def log_log game_over_eq
      split: sum.splits)

lemma collision_result:
  assumes "collision i g = Inr g'"
  shows "\<exists>best. read_file_score g = Inr best \<and>
           score_file g' = (if score g > best then Some (py_str (score g)) else score_file g) \<and>
           read_file_score g' = Inr (max best (score g)) \<and>
           summaries g' = summaries g + 1 \<and> \<not> game_on g' \<and>
           score g' = score g \<and> snake g' = snake g \<and> food g' = food g \<and> alive g"
proof -
  let ?g1 = "log [Sleep 300, Hide_snake, Clear_text, Hide_food] (g\<lparr>game_on := False\<rparr>)"
  from assms have a: "alive g" by (simp add: collision_eq split: if_splits)
  with assms have "game_over (closes_over i) ?g1 = Inr g'"
    by (simp add: collision_eq split: sum.splits)
  note r = game_over_result [OF this] this
  have "\<not> game_on g'"
    using r(2) by (auto simp: game_over_eq clicks_game_on split: sum.splits if_splits)
  with r(1) a show ?thesis by (simp add: summaries_log cong: if_cong)
qed

lemma eat_eq:
  "eat i g =
     (if alive g
      then Inr (log [Apear_food, Snake_extend]
                  (g\<lparr>food := food_pos i, snake := snake_extend i (snake g), score := score g + 1\<rparr>))
      else Inl TclError)"
  by (simp add: eat_def seq.simps canvas_def log_def)

lemma self_collision_eq:
  "self_collision i segments g =
     (if \<exists>segment \<in> set segments. distance (head (snake g)) segment < 10
      then collision i g else Inr g)"
  by (induction segments) simp_all


section \<open>Facts about a pass of the main loop\<close>

lemma clicks_game_on_eq: "alive g \<Longrightarrow> game_on ((click ^^ n) g) = (game_on g \<and> n = 0)"
proof (induction n)
  case 0
  then show ?case by simp
next
  case (Suc n)
  show ?case
  proof (cases "alive ((click ^^ n) g)")
    case True
    then show ?thesis by (simp add: click_flags)
  next
    case False
    with Suc have "n \<noteq> 0" by (cases n) auto
    with Suc False show ?thesis by (simp add: click_flags)
  qed
qed

lemma sum_case_id [simp]: "(case x of Inl e \<Rightarrow> Inl e | Inr y \<Rightarrow> Inr y) = x"
  by (cases x) simp_all

lemma log_snake_commute: "(log es g)\<lparr>snake := s\<rparr> = log es (g\<lparr>snake := s\<rparr>)"
  by (simp add: log_def)

lemma tick_eq:
  "tick i g =
     (if alive g
      then (case read_file_score g of
              Inl e \<Rightarrow> Inl e
            | Inr best \<Rightarrow>
                (case checks i ((click ^^ closes_move i)
                        (log [Sleep 50, Clear_text, Write (Current_score (score g) best), Move_snake]
                           (g\<lparr>snake := move i (snake g)\<rparr>))) of
                   Inl e \<Rightarrow> Inl e
                 | Inr g2 \<Rightarrow>
                     canvas [Listen, Onkey ''Down'', Onkey ''Up'', Onkey ''Left'', Onkey ''Right''] g2))
      else Inl TclError)"
proof (cases "alive g")
  case False
  then show ?thesis
    by (simp add: tick_def seq.simps sleep_def Score_update_eq)
next
  case True
  show ?thesis
  proof (cases "read_file_score g")
    case (Inl e)
    with True show ?thesis
      by (simp add: tick_def seq.simps sleep_def Score_update_eq)
  next
    case (Inr best)
    with True show ?thesis
      by (simp add: tick_def seq.simps sleep_def Score_update_eq snake_move_def log_log
          log_snake_commute cong: sum.case_cong)
  qed
qed

lemma tick_Inr:
  assumes "tick i g = Inr g'"
  obtains best g1 g2 where
    "alive g" "read_file_score g = Inr best"
    "g1 = (click ^^ closes_move i)
            (log [Sleep 50, Clear_text, Write (Current_score (score g) best), Move_snake]
               (g\<lparr>snake := move i (snake g)\<rparr>))"
    "checks i g1 = Inr g2" "alive g2"
    "g' = log [Listen, Onkey ''Down'', Onkey ''Up'', Onkey ''Left'', Onkey ''Right''] g2"
proof -
  from assms have a: "alive g" by (simp add: tick_eq split: if_splits)
  with assms obtain best where b: "read_file_score g = Inr best"
    by (cases "read_file_score g") (simp_all add: tick_eq)
  define g1 where "g1 = (click ^^ closes_move i)
            (log [Sleep 50, Clear_text, Write (Current_score (score g) best), Move_snake]
               (g\<lparr>snake := move i (snake g)\<rparr>))"
  from assms a b obtain g2 where c: "checks i g1 = Inr g2"
    by (cases "checks i g1") (simp_all add: tick_eq g1_def)
  from assms a b c have "alive g2 \<and> g' = log [Listen, Onkey ''Down'', Onkey ''Up'', Onkey ''Left'', Onkey ''Right''] g2"
    by (simp add: tick_eq g1_def [symmetric] canvas_def split: if_splits)
  with a b c g1_def that show thesis by blast
qed

text \<open>What a completed pass of the loop has done, by the branch it took.\<close>

lemma tick_collision:
  assumes "tick i g = Inr g'"
    and "out_of_bounds (head (move i (snake g))) \<or>
         (\<not> distance (head (move i (snake g))) (food g) < 15 \<and>
          (\<exists>segment \<in> set (but_last_two (turtles (move i (snake g)))).
             distance (head (move i (snake g))) segment < 10))"
  shows "\<exists>best. read_file_score g = Inr best \<and>
           score_file g' = (if score g > best then Some (py_str (score g)) else score_file g) \<and>
           read_file_score g' = Inr (max best (score g)) \<and>
           summaries g' = summaries g + 1 \<and> \<not> game_on g' \<and>
           score g' = score g \<and> snake g' = move i (snake g) \<and> food g' = food g"
proof -
  from assms(1) obtain best g1 g2 where t:
    "alive g" "read_file_score g = Inr best"
    "g1 = (click ^^ closes_move i)
            (log [Sleep 50, Clear_text, Write (Current_score (score g) best), Move_snake]
               (g\<lparr>snake := move i (snake g)\<rparr>))"
    "checks i g1 = Inr g2" "alive g2"
    "g' = log [Listen, Onkey ''Down'', Onkey ''Up'', Onkey ''Left'', Onkey ''Right''] g2"
    by (rule tick_Inr)
  have f: "snake g1 = move i (snake g)" "food g1 = food g" "score g1 = score g"
    "score_file g1 = score_file g" "summaries g1 = summaries g" "read_file_score g1 = Inr best"
    by (simp_all add: t(2,3) summaries_log)
  have "checks i g1 = collision i g1"
  proof (cases "out_of_bounds (head (move i (snake g)))")
    case True
    then show ?thesis by (simp add: checks_def f)
  next
    case False
    with assms(2) show ?thesis by (simp add: checks_def f self_collision_eq)
  qed
  with t(4) have "collision i g1 = Inr g2" by simp
  from collision_result [OF this] obtain b where c:
    "read_file_score g1 = Inr b"
    "score_file g2 = (if score g1 > b then Some (py_str (score g1)) else score_file g1)"
    "read_file_score g2 = Inr (max b (score g1))"
    "summaries g2 = summaries g1 + 1" "\<not> game_on g2"
    "score g2 = score g1" "snake g2 = snake g1" "food g2 = food g1"
    by blast
  from c(1) f(6) have "b = best" by simp
  with c t(2) show ?thesis
    by (simp add: f t(6) summaries_log)
qed

lemma tick_eat:
  assumes "tick i g = Inr g'"
    and "\<not> out_of_bounds (head (move i (snake g)))"
    and "distance (head (move i (snake g))) (food g) < 15"
  shows "score g' = score g + 1 \<and> food g' = food_pos i \<and>
         snake g' = snake_extend i (move i (snake g)) \<and>
         summaries g' = summaries g \<and> score_file g' = score_file g \<and>
         game_on g' = (game_on g \<and> closes_move i = 0)"
proof -
  from assms(1) obtain best g1 g2 where t:
    "alive g" "read_file_score g = Inr best"
    "g1 = (click ^^ closes_move i)
            (log [Sleep 50, Clear_text, Write (Current_score (score g) best), Move_snake]
               (g\<lparr>snake := move i (snake g)\<rparr>))"
    "checks i g1 = Inr g2" "alive g2"
    "g' = log [Listen, Onkey ''Down'', Onkey ''Up'', Onkey ''Left'', Onkey ''Right''] g2"
    by (rule tick_Inr)
  have f: "snake g1 = move i (snake g)" "food g1 = food g" "score g1 = score g"
    "score_file g1 = score_file g" "summaries g1 = summaries g"
    "game_on g1 = (game_on g \<and> closes_move i = 0)"
    by (simp_all add: t(1,3) summaries_log clicks_game_on_eq)
  from assms(2,3) t(4) have "eat i g1 = Inr g2"
    by (simp add: checks_def f)
  then have "g2 = log [Apear_food, Snake_extend]
                  (g1\<lparr>food := food_pos i, snake := snake_extend i (snake g1), score := score g1 + 1\<rparr>)"
    by (simp add: eat_eq split: if_splits)
  then show ?thesis
    by (simp add: f t(6) summaries_log)
qed

lemma tick_plain:
  assumes "tick i g = Inr g'"
    and "\<not> out_of_bounds (head (move i (snake g)))"
    and "\<not> distance (head (move i (snake g))) (food g) < 15"
    and "\<not> (\<exists>segment \<in> set (but_last_two (turtles (move i (snake g)))).
             distance (head (move i (snake g))) segment < 10)"
  shows "score g' = score g \<and> food g' = food g \<and> snake g' = move i (snake g) \<and>
         summaries g' = summaries g \<and> score_file g' = score_file g \<and>
         game_on g' = (game_on g \<and> closes_move i = 0)"
proof -
  from assms(1) obtain best g1 g2 where t:
    "alive g" "read_file_score g = Inr best"
    "g1 = (click ^^ closes_move i)
            (log [Sleep 50, Clear_text, Write (Current_score (score g) best), Move_snake]
               (g\<lparr>snake := move i (snake g)\<rparr>))"
    "checks i g1 = Inr g2" "alive g2"
    "g' = log [Listen, Onkey ''Down'', Onkey ''Up'', Onkey ''Left'', Onkey ''Right''] g2"
    by (rule tick_Inr)
  have f: "snake g1 = move i (snake g)" "food g1 = food g" "score g1 = score g"
    "score_file g1 = score_file g" "summaries g1 = summaries g"
    "game_on g1 = (game_on g \<and> closes_move i = 0)"
    by (simp_all add: t(1,3) summaries_log clicks_game_on_eq)
  from assms(2,3,4) t(4) have "g2 = g1"
    by (simp add: checks_def f self_collision_eq)
  then show ?thesis
    by (simp add: f t(6) summaries_log)
qed


lemma read_file_score_cong: "score_file g1 = score_file g \<Longrightarrow> read_file_score g1 = read_file_score g"
  by (simp add: read_file_score_def)

lemma tick_branches:
  assumes "tick i g = Inr g'"
  obtains
    (collision) best where
      "out_of_bounds (head (move i (snake g))) \<or>
         (\<not> distance (head (move i (snake g))) (food g) < 15 \<and>
          (\<exists>segment \<in> set (but_last_two (turtles (move i (snake g)))).
             distance (head (move i (snake g))) segment < 10))"
      "read_file_score g = Inr best"
      "score_file g' = (if score g > best then Some (py_str (score g)) else score_file g)"
      "read_file_score g' = Inr (max best (score g))"
      "summaries g' = summaries g + 1" "\<not> game_on g'"
      "score g' = score g" "snake g' = move i (snake g)" "food g' = food g"
  | (eat)
      "\<not> out_of_bounds (head (move i (snake g)))"
      "distance (head (move i (snake g))) (food g) < 15"
      "score g' = score g + 1" "food g' = food_pos i"
      "snake g' = snake_extend i (move i (snake g))"
      "summaries g' = summaries g" "score_file g' = score_file g"
      "game_on g' = (game_on g \<and> closes_move i = 0)"
  | (plain)
      "\<not> out_of_bounds (head (move i (snake g)))"
      "\<not> distance (head (move i (snake g))) (food g) < 15"
      "\<not> (\<exists>segment \<in> set (but_last_two (turtles (move i (snake g)))).
             distance (head (move i (snake g))) segment < 10)"
      "score g' = score g" "food g' = food g" "snake g' = move i (snake g)"
      "summaries g' = summaries g" "score_file g' = score_file g"
      "game_on g' = (game_on g \<and> closes_move i = 0)"
proof (cases "out_of_bounds (head (move i (snake g))) \<or>
         (\<not> distance (head (move i (snake g))) (food g) < 15 \<and>
          (\<exists>segment \<in> set (but_last_two (turtles (move i (snake g)))).
             distance (head (move i (snake g))) segment < 10))")
  case True
  from tick_collision [OF assms True] True collision show ?thesis by blast
next
  case False
  show ?thesis
  proof (cases "distance (head (move i (snake g))) (food g) < 15")
    case True
    with False have o: "\<not> out_of_bounds (head (move i (snake g)))" by blast
    from tick_eat [OF assms o True] o True eat show ?thesis by blast
  next
    case n: False
    with False have o: "\<not> out_of_bounds (head (move i (snake g)))"
      and b: "\<not> (\<exists>segment \<in> set (but_last_two (turtles (move i (snake g)))).
             distance (head (move i (snake g))) segment < 10)" by blast+
    from tick_plain [OF assms o n b] o n b plain show ?thesis by blast
  qed
qed

lemma play_stopped: "\<not> game_on g \<Longrightarrow> play ts g = Some (Inr g)"
  by (cases ts) simp_all

lemma tick_file:
  assumes "tick i g = Inr g'" and "score_file g' \<noteq> score_file g"
  shows "\<not> game_on g' \<and> summaries g' = summaries g + 1 \<and> score g' = score g \<and>
         (\<exists>best. read_file_score g = Inr best \<and> best < score g \<and>
                  score_file g' = Some (py_str (score g)))"
  using assms(1)
proof (cases rule: tick_branches)
  case (collision best)
  with assms(2) show ?thesis by (auto split: if_splits)
next
  case eat
  with assms(2) show ?thesis by simp
next
  case plain
  with assms(2) show ?thesis by simp
qed

lemma play_file:
  "play ts g = Some (Inr g') \<Longrightarrow> score_file g' \<noteq> score_file g \<Longrightarrow>
   \<exists>best. read_file_score g = Inr best \<and> best < score g' \<and>
          score_file g' = Some (py_str (score g'))"
proof (induction ts arbitrary: g)
  case Nil
  then show ?case by (simp split: if_splits)
next
  case (Cons i rest)
  show ?case
  proof (cases "game_on g")
    case False
    with Cons.prems show ?thesis by simp
  next
    case True
    with Cons.prems obtain g1 where t: "tick i g = Inr g1" and p: "play rest g1 = Some (Inr g')"
      by (cases "tick i g") simp_all
    show ?thesis
    proof (cases "score_file g1 = score_file g")
      case True
      with Cons.prems(2) have "score_file g' \<noteq> score_file g1" by simp
      from Cons.IH [OF p this] read_file_score_cong [OF True] show ?thesis by simp
    next
      case False
      from tick_file [OF t False] obtain best where f:
        "\<not> game_on g1" "score g1 = score g" "read_file_score g = Inr best" "best < score g"
        "score_file g1 = Some (py_str (score g))" by blast
      from p play_stopped [OF f(1)] have "g' = g1" by simp
      with f show ?thesis by simp
    qed
  qed
qed

lemma tick_score:
  assumes "tick i g = Inr g'"
  shows "score g' = score g \<or> score g' = score g + 1"
  using assms by (cases rule: tick_branches) simp_all

lemma play_score: "play ts g = Some (Inr g') \<Longrightarrow> score g \<le> score g'"
proof (induction ts arbitrary: g)
  case Nil
  then show ?case by (simp split: if_splits)
next
  case (Cons i rest)
  show ?case
  proof (cases "game_on g")
    case False
    with Cons.prems show ?thesis by simp
  next
    case True
    with Cons.prems obtain g1 where t: "tick i g = Inr g1" and p: "play rest g1 = Some (Inr g')"
      by (cases "tick i g") simp_all
    from tick_score [OF t] Cons.IH [OF p] show ?thesis by auto
  qed
qed


lemma distance_less_iff:
  assumes "0 < r"
  shows "distance p q < r \<longleftrightarrow> (fst q - fst p)\<^sup>2 + (snd q - snd p)\<^sup>2 < r\<^sup>2"
proof -
  have "sqrt ((fst q - fst p)\<^sup>2 + (snd q - snd p)\<^sup>2) < sqrt (r\<^sup>2) \<longleftrightarrow>
        (fst q - fst p)\<^sup>2 + (snd q - snd p)\<^sup>2 < r\<^sup>2"
    by (rule real_sqrt_less_iff)
  with assms show ?thesis by (simp add: distance_def)
qed

lemma collision_completes:
  assumes "alive g" "read_file_score g = Inr b" "closes_over i = 0"
  shows "\<exists>g'. collision i g = Inr g' \<and> alive g'"
  using assms by (simp add: collision_eq game_over_eq)

lemma checks_completes:
  assumes "alive g" "read_file_score g = Inr b" "closes_over i = 0"
  shows "\<exists>g'. checks i g = Inr g' \<and> alive g'"
proof -
  from collision_completes [OF assms] obtain g' where c: "collision i g = Inr g'" "alive g'"
    by blast
  show ?thesis
  proof (cases "out_of_bounds (head (snake g))")
    case True
    with c show ?thesis by (simp add: checks_def)
  next
    case o: False
    show ?thesis
    proof (cases "distance (head (snake g)) (food g) < 15")
      case True
      with o assms(1) show ?thesis by (simp add: checks_def eat_eq)
    next
      case False
      with o c assms(1) show ?thesis by (simp add: checks_def self_collision_eq)
    qed
  qed
qed

lemma tick_completes:
  assumes "alive g" "read_file_score g = Inr b" "closes_move i = 0" "closes_over i = 0"
  shows "\<exists>g'. tick i g = Inr g'"
proof -
  let ?g1 = "log [Sleep 50, Clear_text, Write (Current_score (score g) b), Move_snake]
               (g\<lparr>snake := move i (snake g)\<rparr>)"
  have "alive ?g1" "read_file_score ?g1 = Inr b" using assms by simp_all
  from checks_completes [OF this assms(4)] obtain g2 where "checks i ?g1 = Inr g2" "alive g2"
    by blast
  with assms show ?thesis by (simp add: tick_eq canvas_def)
qed

lemma click_trace: "\<exists>rest. trace (click g) = trace g @ rest"
  by (simp add: click_def on_close_def effect_defs)

lemma clicks_trace: "\<exists>rest. trace ((click ^^ n) g) = trace g @ rest"
proof (induction n)
  case 0
  then show ?case by simp
next
  case (Suc n)
  then obtain r1 where "trace ((click ^^ n) g) = trace g @ r1" by blast
  moreover obtain r2 where "trace (click ((click ^^ n) g)) = trace ((click ^^ n) g) @ r2"
    using click_trace by blast
  ultimately show ?case by simp
qed


section \<open>The score file\<close>

lemmas py_defs = py_int_def strip_def unsigned_def is_space_def is_decimal_def digit_value_def
  is_digit_def isdigit_def py_str_def digit_char_def digits.simps

lemmas example_defs = example_game_def example_tick_def example_session_def initial_def

text \<open>
  C10: \<open>save_score\<close> replaces the content of the score file by the decimal text of the
  attribute \<open>score\<close>, whatever the file holds, also when the stored value is higher (a
  stored 7 is replaced by 5). The stored best only grows because \<open>game_over\<close>, the one
  caller, saves only when the score is strictly greater than the stored value.
\<close>

theorem save_score_overwrites:
  "score_file (save_score g) = Some (py_str (score g)) \<and>
   read_file_score (save_score g) = Inr (score g) \<and>
   (game_over n g = Inr g' \<and> read_file_score g = Inr best \<longrightarrow>
      score_file g' = (if score g > best then score_file (save_score g) else score_file g)) \<and>
   read_file_score (example_game (Some ''7'') 5) = Inr 7 \<and>
   score_file (save_score (example_game (Some ''7'') 5)) = Some ''5''"
proof -
  have "score_file g' = (if score g > best then score_file (save_score g) else score_file g)"
    if "game_over n g = Inr g'" "read_file_score g = Inr best"
    using game_over_result [OF that(1)] that(2) by auto
  moreover have "read_file_score (example_game (Some ''7'') 5) = Inr 7"
    by (simp add: example_defs read_file_score_def py_defs)
  moreover have "score_file (save_score (example_game (Some ''7'') 5)) = Some ''5''"
    by (simp add: example_defs py_defs)
  ultimately show ?thesis by (simp add: read_save_score)
qed

theorem save_score_overwrites_witness:
  "\<exists>g'. game_over 0 (example_game (Some ''7'') 5) = Inr g' \<and>
        read_file_score (example_game (Some ''7'') 5) = Inr 7 \<and>
        score_file g' = Some ''7''"
proof -
  have r: "read_file_score (example_game (Some ''7'') 5) = Inr 7"
    by (simp add: example_defs read_file_score_def py_defs)
  have "alive (example_game (Some ''7'') 5)" by (simp add: example_defs)
  with r obtain g' where g: "game_over 0 (example_game (Some ''7'') 5) = Inr g'"
    by (simp add: game_over_eq)
  from save_score_overwrites [of "example_game (Some ''7'') 5" 0 g' 7] g r
  have "score_file g' = Some ''7''" by (simp add: example_defs)
  with g r show ?thesis by blast
qed


lemma Score_init_eq:
  "Score_init g =
     (if alive g
      then Inr ((log [Turtle_setup, Color ''violet'', Goto 0 350]
                  (if score_file g = None then file_write ''0'' (log [New_turtle ''''] g)
                   else log [New_turtle ''''] g))\<lparr>score := 0\<rparr>)
      else Inl TclError)"
  by (simp add: Score_init_def seq.simps canvas_def file_write_def log_def)

text \<open>
  C7: when the score file does not exist, constructing a \<open>Score\<close> creates it with the text
  \<open>0\<close>, and the first read returns 0. When the file exists and its text is not an integer
  literal, \<open>read_file_score\<close> raises \<open>ValueError\<close>: the constructor leaves the file as it
  is, and the next refresh of the score display, so the next pass of the main loop, ends
  with that exception instead of reading 0.
\<close>

theorem missing_file_created_corrupt_file_raises:
  "(alive g \<and> score_file g = None \<longrightarrow>
      (\<exists>g'. Score_init g = Inr g' \<and> score_file g' = Some ''0'' \<and> read_file_score g' = Inr 0)) \<and>
   (score_file g = Some s \<and> py_int s = None \<longrightarrow>
      read_file_score g = Inl ValueError \<and>
      (\<forall>g'. Score_init g = Inr g' \<longrightarrow> score_file g' = Some s) \<and>
      (alive g \<longrightarrow> Score_update g = Inl ValueError \<and> tick i g = Inl ValueError))"
proof -
  have "\<exists>g'. Score_init g = Inr g' \<and> score_file g' = Some ''0'' \<and> read_file_score g' = Inr 0"
    if "alive g" "score_file g = None"
    using that by (simp add: Score_init_eq file_write_def read_file_score_def py_defs)
  moreover have "read_file_score g = Inl ValueError"
    if "score_file g = Some s" "py_int s = None"
    using that by (simp add: read_file_score_def)
  moreover have "score_file g' = Some s" if "score_file g = Some s" "Score_init g = Inr g'" for g'
    using that by (auto simp: Score_init_eq split: if_splits)
  moreover have "Score_update g = Inl ValueError \<and> tick i g = Inl ValueError"
    if "score_file g = Some s" "py_int s = None" "alive g"
    using that by (simp add: Score_update_eq tick_eq read_file_score_def)
  ultimately show ?thesis by blast
qed

theorem missing_file_created_corrupt_file_raises_witness:
  "(\<exists>g'. Score_init (initial None) = Inr g' \<and> score_file g' = Some ''0'' \<and>
         read_file_score g' = Inr 0) \<and>
   py_int ''abc'' = None \<and>
   read_file_score (initial (Some ''abc'')) = Inl ValueError \<and>
   tick (example_tick \<lparr>turtles = [], head = (0, 0)\<rparr>) (initial (Some ''abc'')) = Inl ValueError"
proof -
  have a: "alive (initial None)" "score_file (initial None) = None"
    "alive (initial (Some ''abc''))" "score_file (initial (Some ''abc'')) = Some ''abc''"
    by (simp_all add: initial_def)
  have p: "py_int ''abc'' = None" by (simp add: py_defs)
  from missing_file_created_corrupt_file_raises [of "initial None"] a(1,2)
  have 1: "\<exists>g'. Score_init (initial None) = Inr g' \<and> score_file g' = Some ''0'' \<and>
         read_file_score g' = Inr 0" by blast
  from missing_file_created_corrupt_file_raises
    [of "initial (Some ''abc'')" "''abc''" "example_tick \<lparr>turtles = [], head = (0, 0)\<rparr>"] a(3,4) p
  have 2: "read_file_score (initial (Some ''abc'')) = Inl ValueError \<and>
    tick (example_tick \<lparr>turtles = [], head = (0, 0)\<rparr>) (initial (Some ''abc'')) = Inl ValueError"
    by blast
  from 1 2 p show ?thesis by blast
qed

text \<open>
  C8: in \<open>game_over\<close> the score is saved, when it is a record, before anything of the
  summary is drawn, and the summary shows the value read from the file after that: the
  greater of the stored best and the score. After a record the summary shows the new best.
\<close>

theorem game_over_persists_before_summary:
  assumes "game_over n g = Inr g'"
  shows "\<exists>best rest. read_file_score g = Inr best \<and>
           trace g' = trace g @ (if score g > best then [File_write (py_str (score g))] else []) @
              [Goto 0 0, Bgcolor ''crimson'', Color ''peach puff'',
               Write (Game_over_text (max best (score g)))] @ rest \<and>
           read_file_score g' = Inr (max best (score g)) \<and>
           score_file g' = (if score g > best then Some (py_str (score g)) else score_file g)"
proof -
  from game_over_result [OF assms] obtain best where b:
    "read_file_score g = Inr best" "alive g"
    "score_file g' = (if score g > best then Some (py_str (score g)) else score_file g)"
    "read_file_score g' = Inr (max best (score g))" by blast
  let ?g2 = "log [Goto 0 0, Bgcolor ''crimson'', Color ''peach puff'',
                       Write (Game_over_text (max best (score g))),
                       Goto (- 470) 330, Write Icon, Goto (- 470) (- 330), Write Icon,
                       Goto 430 330, Write Icon, Goto 430 (- 330), Write Icon, Update]
                    (if score g > best then save_score g else g)"
  from assms b have g': "g' = (click ^^ n) ?g2" by (simp add: game_over_eq)
  obtain r where r: "trace g' = trace ?g2 @ r" unfolding g' using clicks_trace by blast
  have "trace ?g2 = trace g @ (if score g > best then [File_write (py_str (score g))] else []) @
              [Goto 0 0, Bgcolor ''crimson'', Color ''peach puff'',
               Write (Game_over_text (max best (score g)))] @
              [Goto (- 470) 330, Write Icon, Goto (- 470) (- 330), Write Icon,
                       Goto 430 330, Write Icon, Goto 430 (- 330), Write Icon, Update]"
    by (simp add: save_score_def file_write_def log_def)
  with r b show ?thesis by simp
qed

theorem game_over_persists_before_summary_witness:
  "\<exists>g' rest. game_over 0 (example_game (Some ''1'') 3) = Inr g' \<and>
     trace g' = [File_write ''3'', Goto 0 0, Bgcolor ''crimson'', Color ''peach puff'',
                 Write (Game_over_text 3)] @ rest \<and>
     read_file_score g' = Inr 3 \<and> score_file g' = Some ''3''"
proof -
  have r: "read_file_score (example_game (Some ''1'') 3) = Inr 1"
    by (simp add: example_defs read_file_score_def py_defs)
  have "alive (example_game (Some ''1'') 3)" by (simp add: example_defs)
  with r obtain g' where g: "game_over 0 (example_game (Some ''1'') 3) = Inr g'"
    by (simp add: game_over_eq)
  from game_over_persists_before_summary [OF g] r g show ?thesis
    by (auto simp: example_defs py_defs)
qed


lemma distance_self: "distance p p = 0"
  by (simp add: distance_def)

lemma example_reads:
  "read_file_score (example_game (Some ''0'') n) = Inr 0"
  "read_file_score (example_game (Some ''7'') n) = Inr 7"
  "alive (example_game f n)" "game_on (example_game f n)" "score (example_game f n) = n"
  "score_file (example_game f n) = f" "food (example_game f n) = (200, 100)"
  "summaries (example_game f n) = 0"
  "move (example_tick s) = (\<lambda>_. s)" "closes_move (example_tick s) = 0"
  "closes_over (example_tick s) = 0" "food_pos (example_tick s) = (- 100, 50)"
  by (simp_all add: example_defs read_file_score_def py_defs summaries_def)

text \<open>
  C1: the score file changes in a pass of the main loop only when that pass ran the
  game-over handling (the round is over, one summary was shown) and the score was
  strictly greater than the stored value; the new content is the text of the score. So
  after a whole round the file is as before, or it holds the final score, which beat the
  stored value. A round that ends by a collision with score 7 on a stored 0 leaves 7,
  and a later one that ends with score 5 leaves the 7.
\<close>

theorem best_score_saved_only_at_game_over:
  "(tick i g = Inr g' \<and> score_file g' \<noteq> score_file g \<longrightarrow>
      \<not> game_on g' \<and> summaries g' = summaries g + 1 \<and>
      (\<exists>best. read_file_score g = Inr best \<and> best < score g \<and>
              score_file g' = Some (py_str (score g)))) \<and>
   (play ts g = Some (Inr g') \<and> score_file g' \<noteq> score_file g \<longrightarrow>
      (\<exists>best. read_file_score g = Inr best \<and> best < score g' \<and>
              score_file g' = Some (py_str (score g')))) \<and>
   (collision i g = Inr g' \<and> score_file g = Some ''0'' \<and> score g = 7 \<longrightarrow>
      score_file g' = Some ''7'') \<and>
   (collision i g = Inr g' \<and> score_file g = Some ''7'' \<and> score g = 5 \<longrightarrow>
      score_file g' = Some ''7'')"
proof -
  have "score_file g' = Some ''7''"
    if "collision i g = Inr g'" "score_file g = Some ''0''" "score g = 7"
    using collision_result [OF that(1)] that(2,3)
    by (auto simp: read_file_score_def py_defs)
  moreover have "score_file g' = Some ''7''"
    if "collision i g = Inr g'" "score_file g = Some ''7''" "score g = 5"
    using collision_result [OF that(1)] that(2,3)
    by (auto simp: read_file_score_def py_defs)
  ultimately show ?thesis
    using tick_file [of i g g'] play_file [of ts g g'] by blast
qed

theorem best_score_saved_only_at_game_over_witness:
  "\<exists>g1 g2 g3. collision (example_tick \<lparr>turtles = [], head = (486, 0)\<rparr>) (example_game (Some ''0'') 7) = Inr g1 \<and>
     score_file g1 = Some ''7'' \<and>
     collision (example_tick \<lparr>turtles = [], head = (486, 0)\<rparr>) (example_game (Some ''7'') 5) = Inr g2 \<and>
     score_file g2 = Some ''7'' \<and>
     tick (example_tick \<lparr>turtles = [], head = (486, 0)\<rparr>) (example_game (Some ''0'') 7) = Inr g3 \<and>
     play [example_tick \<lparr>turtles = [], head = (486, 0)\<rparr>] (example_game (Some ''0'') 7) = Some (Inr g3) \<and>
     score_file g3 = Some ''7'' \<and> \<not> game_on g3 \<and> summaries g3 = 1"
proof -
  let ?i = "example_tick \<lparr>turtles = [], head = (486, 0)\<rparr>"
  obtain g1 where 1: "collision ?i (example_game (Some ''0'') 7) = Inr g1"
    using collision_completes [of "example_game (Some ''0'') 7" 0 ?i] by (auto simp: example_reads)
  obtain g2 where 2: "collision ?i (example_game (Some ''7'') 5) = Inr g2"
    using collision_completes [of "example_game (Some ''7'') 5" 7 ?i] by (auto simp: example_reads)
  from best_score_saved_only_at_game_over [of ?i "example_game (Some ''0'') 7" g1] 1
  have 3: "score_file g1 = Some ''7''" by (simp add: example_reads)
  from best_score_saved_only_at_game_over [of ?i "example_game (Some ''7'') 5" g2] 2
  have 4: "score_file g2 = Some ''7''" by (simp add: example_reads)
  obtain g3 where 5: "tick ?i (example_game (Some ''0'') 7) = Inr g3"
    using tick_completes [of "example_game (Some ''0'') 7" 0 ?i] by (auto simp: example_reads)
  have "out_of_bounds (head (move ?i (snake (example_game (Some ''0'') 7))))"
    by (simp add: example_reads out_of_bounds_def)
  with tick_collision [OF 5] have 6: "score_file g3 = Some ''7''"
    by (simp add: example_reads py_defs)
  with best_score_saved_only_at_game_over [of ?i "example_game (Some ''0'') 7" g3] 5
  have 7: "\<not> game_on g3 \<and> summaries g3 = 1" by (simp add: example_reads)
  with 5 have 8: "play [?i] (example_game (Some ''0'') 7) = Some (Inr g3)"
    by (simp add: example_reads)
  from 1 2 3 4 5 6 7 8 show ?thesis by blast
qed


section \<open>Score and collisions\<close>

text \<open>
  C2: in a pass of the main loop the score stays or grows by exactly 1, and it grows
  exactly when the head, after the move, is inside the boundary and nearer than 15 to
  the food. In that case the food is placed anew, \<open>snake_extend\<close> is applied to the
  snake, and no game-over handling runs in that pass, whatever the distance of the head
  to the body: the branch of the self-collision check is not entered. Over a whole
  round the score never decreases.
\<close>

theorem score_grows_by_one_per_food:
  "(tick i g = Inr g' \<longrightarrow>
      (score g' = score g \<or> score g' = score g + 1) \<and>
      (score g' = score g + 1 \<longleftrightarrow>
         \<not> out_of_bounds (head (move i (snake g))) \<and>
         distance (head (move i (snake g))) (food g) < 15) \<and>
      (\<not> out_of_bounds (head (move i (snake g))) \<and>
       distance (head (move i (snake g))) (food g) < 15 \<longrightarrow>
         food g' = food_pos i \<and> snake g' = snake_extend i (move i (snake g)) \<and>
         summaries g' = summaries g \<and> game_on g' = (game_on g \<and> closes_move i = 0))) \<and>
   (play ts g = Some (Inr g') \<longrightarrow> score g \<le> score g')"
proof -
  have "(score g' = score g \<or> score g' = score g + 1) \<and>
      (score g' = score g + 1 \<longleftrightarrow>
         \<not> out_of_bounds (head (move i (snake g))) \<and>
         distance (head (move i (snake g))) (food g) < 15) \<and>
      (\<not> out_of_bounds (head (move i (snake g))) \<and>
       distance (head (move i (snake g))) (food g) < 15 \<longrightarrow>
         food g' = food_pos i \<and> snake g' = snake_extend i (move i (snake g)) \<and>
         summaries g' = summaries g \<and> game_on g' = (game_on g \<and> closes_move i = 0))"
    if t: "tick i g = Inr g'"
    using t
  proof (cases rule: tick_branches)
    case (collision best)
    then show ?thesis by auto
  next
    case eat
    then show ?thesis by simp
  next
    case plain
    then show ?thesis by simp
  qed
  then show ?thesis using play_score [of ts g g'] by blast
qed

theorem score_grows_by_one_per_food_witness:
  "\<exists>g'. distance (195, 100) (200, 100) < 15 \<and> distance (195, 100) (195, 100) < 10 \<and>
     tick (example_tick \<lparr>turtles = [(195, 100), (20, 0), (40, 0), (195, 100)], head = (195, 100)\<rparr>)
       (example_game (Some ''0'') 3) = Inr g' \<and>
     play [example_tick \<lparr>turtles = [(195, 100), (20, 0), (40, 0), (195, 100)], head = (195, 100)\<rparr>,
           example_tick \<lparr>turtles = [], head = (486, 0)\<rparr>]
       (example_game (Some ''0'') 3) \<noteq> None \<and>
     score g' = 4 \<and> food g' = (- 100, 50) \<and>
     turtles (snake g') = [(0, 0), (195, 100), (20, 0), (40, 0), (195, 100)] \<and>
     summaries g' = 0 \<and> game_on g'"
proof -
  let ?s = "\<lparr>turtles = [(195, 100), (20, 0), (40, 0), (195, 100)], head = (195, 100)\<rparr>"
  let ?g = "example_game (Some ''0'') 3"
  have d: "distance (195, 100) (200, 100) < 15" "distance (195, 100) (195, 100) < 10"
    by (simp_all add: distance_less_iff)
  obtain g' where t: "tick (example_tick ?s) ?g = Inr g'"
    using tick_completes [of ?g 0 "example_tick ?s"] by (auto simp: example_reads)
  have c: "\<not> out_of_bounds (head (move (example_tick ?s) (snake ?g)))"
    "distance (head (move (example_tick ?s) (snake ?g))) (food ?g) < 15"
    using d by (simp_all add: example_reads out_of_bounds_def)
  from score_grows_by_one_per_food [of "example_tick ?s" ?g g'] t c
  have r: "score g' = 4 \<and> food g' = (- 100, 50) \<and>
     turtles (snake g') = [(0, 0), (195, 100), (20, 0), (40, 0), (195, 100)] \<and>
     summaries g' = 0 \<and> game_on g'"
    by (simp add: example_reads) (simp add: example_tick_def)
  have a: "alive g'" "read_file_score g' = Inr 0"
    using t tick_eat [OF t c] example_reads(1) [of 3]
    by (auto elim!: tick_Inr simp: read_file_score_def)
  obtain g2 where t2: "tick (example_tick \<lparr>turtles = [], head = (486, 0)\<rparr>) g' = Inr g2"
    using tick_completes [OF a, of "example_tick \<lparr>turtles = [], head = (486, 0)\<rparr>"]
    by (auto simp: example_reads)
  have "\<not> game_on g2"
    using tick_collision [OF t2] by (auto simp: example_reads out_of_bounds_def)
  with t t2 r have "play [example_tick ?s, example_tick \<lparr>turtles = [], head = (486, 0)\<rparr>] ?g \<noteq> None"
    by (simp add: example_reads)
  with d t r show ?thesis by blast
qed


text \<open>
  C3: in a pass of the main loop, when the head after the move is beyond the boundary
  (x above 485 or below -485, y above 385 or below -385) the round ends: \<open>game_on\<close> is
  down and one game-over summary was shown. When the head is inside, a summary is shown
  only by the self-collision check (not near the food, and an eligible segment nearer
  than 10); otherwise no summary is shown and \<open>game_on\<close> stays as it was unless the close
  button was clicked. A head at x = 486 is beyond the boundary; one at x = 484 is not
  as long as y is within 385.
\<close>

theorem boundary_check_ends_round:
  "(tick i g = Inr g' \<longrightarrow>
      (out_of_bounds (head (move i (snake g))) \<longrightarrow>
         \<not> game_on g' \<and> summaries g' = summaries g + 1) \<and>
      (\<not> out_of_bounds (head (move i (snake g))) \<longrightarrow>
         (summaries g' = summaries g + 1 \<longleftrightarrow>
            \<not> distance (head (move i (snake g))) (food g) < 15 \<and>
            (\<exists>segment \<in> set (but_last_two (turtles (move i (snake g)))).
               distance (head (move i (snake g))) segment < 10)) \<and>
         (summaries g' = summaries g + 1 \<or>
          summaries g' = summaries g \<and> game_on g' = (game_on g \<and> closes_move i = 0)))) \<and>
   (out_of_bounds (x, y) \<longleftrightarrow> x > 485 \<or> x < - 485 \<or> y > 385 \<or> y < - 385) \<and>
   out_of_bounds (486, y) \<and>
   (out_of_bounds (484, y) \<longleftrightarrow> y > 385 \<or> y < - 385)"
proof -
  have "(out_of_bounds (head (move i (snake g))) \<longrightarrow>
         \<not> game_on g' \<and> summaries g' = summaries g + 1) \<and>
      (\<not> out_of_bounds (head (move i (snake g))) \<longrightarrow>
         (summaries g' = summaries g + 1 \<longleftrightarrow>
            \<not> distance (head (move i (snake g))) (food g) < 15 \<and>
            (\<exists>segment \<in> set (but_last_two (turtles (move i (snake g)))).
               distance (head (move i (snake g))) segment < 10)) \<and>
         (summaries g' = summaries g + 1 \<or>
          summaries g' = summaries g \<and> game_on g' = (game_on g \<and> closes_move i = 0)))"
    if t: "tick i g = Inr g'"
    using t
  proof (cases rule: tick_branches)
    case (collision best)
    then show ?thesis by blast
  next
    case eat
    then show ?thesis by simp
  next
    case plain
    then show ?thesis by simp
  qed
  then show ?thesis by (auto simp: out_of_bounds_def)
qed

theorem boundary_check_ends_round_witness:
  "\<exists>g1 g2.
     tick (example_tick \<lparr>turtles = [(0, 0), (20, 0), (40, 0), (486, 0)], head = (486, 0)\<rparr>)
       (example_game (Some ''0'') 3) = Inr g1 \<and>
     \<not> game_on g1 \<and> summaries g1 = 1 \<and>
     tick (example_tick \<lparr>turtles = [(0, 0), (20, 0), (40, 0), (484, 0)], head = (484, 0)\<rparr>)
       (example_game (Some ''0'') 3) = Inr g2 \<and>
     game_on g2 \<and> summaries g2 = 0"
proof -
  let ?g = "example_game (Some ''0'') 3"
  let ?i1 = "example_tick \<lparr>turtles = [(0, 0), (20, 0), (40, 0), (486, 0)], head = (486, 0)\<rparr>"
  let ?i2 = "example_tick \<lparr>turtles = [(0, 0), (20, 0), (40, 0), (484, 0)], head = (484, 0)\<rparr>"
  obtain g1 where t1: "tick ?i1 ?g = Inr g1"
    using tick_completes [of ?g 0 ?i1] by (auto simp: example_reads)
  obtain g2 where t2: "tick ?i2 ?g = Inr g2"
    using tick_completes [of ?g 0 ?i2] by (auto simp: example_reads)
  have o1: "out_of_bounds (head (move ?i1 (snake ?g)))"
    by (simp add: example_reads out_of_bounds_def)
  have o2: "\<not> out_of_bounds (head (move ?i2 (snake ?g)))"
    "\<not> (\<exists>segment \<in> set (but_last_two (turtles (move ?i2 (snake ?g)))).
               distance (head (move ?i2 (snake ?g))) segment < 10)"
    by (simp_all add: example_reads out_of_bounds_def but_last_two_def distance_less_iff)
  from boundary_check_ends_round [of ?i1 ?g g1] t1 o1
  have 1: "\<not> game_on g1 \<and> summaries g1 = 1" by (simp add: example_reads)
  from boundary_check_ends_round [of ?i2 ?g g2] t2 o2
  have 2: "game_on g2 \<and> summaries g2 = 0" by (auto simp: example_reads out_of_bounds_def)
  from t1 t2 1 2 show ?thesis by blast
qed

text \<open>
  C4: in a pass of the main loop where the head after the move is inside the boundary
  and not near the food, the round ends exactly when a segment of \<open>turtles\<close> other than
  its last two entries is nearer than 10 to the head. When the head is the last entry
  of \<open>turtles\<close>, those are all segments but the head and the one right behind it. For a
  snake of four segments \<open>[a, b, c, d]\<close> with head \<open>d\<close>, the round ends exactly when \<open>a\<close>
  or \<open>b\<close> is nearer than 10 to the head: it ends when the head is on \<open>b\<close>, the third from
  the head, and neither the head itself nor \<open>c\<close>, being on the head, ends it.
\<close>

theorem self_collision_skips_last_two:
  "(tick i g = Inr g' \<and> \<not> out_of_bounds (head (move i (snake g))) \<and>
    \<not> distance (head (move i (snake g))) (food g) < 15 \<longrightarrow>
      ((\<exists>segment \<in> set (but_last_two (turtles (move i (snake g)))).
          distance (head (move i (snake g))) segment < 10) \<longrightarrow>
         \<not> game_on g' \<and> summaries g' = summaries g + 1) \<and>
      (\<not> (\<exists>segment \<in> set (but_last_two (turtles (move i (snake g)))).
          distance (head (move i (snake g))) segment < 10) \<longrightarrow>
         summaries g' = summaries g \<and> game_on g' = (game_on g \<and> closes_move i = 0)) \<and>
      (move i (snake g) = \<lparr>turtles = [a, b, c, d], head = d\<rparr> \<longrightarrow>
         (summaries g' = summaries g + 1 \<longleftrightarrow> distance d a < 10 \<or> distance d b < 10) \<and>
         (b = d \<longrightarrow> summaries g' = summaries g + 1))) \<and>
   but_last_two (body @ [behind, front]) = body \<and>
   (length xs \<le> 2 \<longrightarrow> but_last_two xs = [])"
proof -
  have "((\<exists>segment \<in> set (but_last_two (turtles (move i (snake g)))).
          distance (head (move i (snake g))) segment < 10) \<longrightarrow>
         \<not> game_on g' \<and> summaries g' = summaries g + 1) \<and>
      (\<not> (\<exists>segment \<in> set (but_last_two (turtles (move i (snake g)))).
          distance (head (move i (snake g))) segment < 10) \<longrightarrow>
         summaries g' = summaries g \<and> game_on g' = (game_on g \<and> closes_move i = 0))"
    if t: "tick i g = Inr g'" and o: "\<not> out_of_bounds (head (move i (snake g)))"
      and f: "\<not> distance (head (move i (snake g))) (food g) < 15"
    using t
  proof (cases rule: tick_branches)
    case (collision best)
    with o f show ?thesis by blast
  next
    case eat
    with f show ?thesis by simp
  next
    case plain
    then show ?thesis by simp
  qed
  moreover have "but_last_two [a, b, c, d] = [a, b]" by (simp add: but_last_two_def)
  moreover have "distance d d < 10" by (simp add: distance_self)
  ultimately show ?thesis
    by (auto simp: but_last_two_def)
qed


theorem self_collision_skips_last_two_witness:
  "\<exists>g1 g2.
     tick (example_tick \<lparr>turtles = [(0, 0), (20, 0), (40, 0), (20, 0)], head = (20, 0)\<rparr>)
       (example_game (Some ''0'') 3) = Inr g1 \<and>
     \<not> game_on g1 \<and> summaries g1 = 1 \<and>
     tick (example_tick \<lparr>turtles = [(0, 0), (20, 0), (60, 0), (60, 0)], head = (60, 0)\<rparr>)
       (example_game (Some ''0'') 3) = Inr g2 \<and>
     game_on g2 \<and> summaries g2 = 0"
proof -
  let ?g = "example_game (Some ''0'') 3"
  let ?i1 = "example_tick \<lparr>turtles = [(0, 0), (20, 0), (40, 0), (20, 0)], head = (20, 0)\<rparr>"
  let ?i2 = "example_tick \<lparr>turtles = [(0, 0), (20, 0), (60, 0), (60, 0)], head = (60, 0)\<rparr>"
  obtain g1 where t1: "tick ?i1 ?g = Inr g1"
    using tick_completes [of ?g 0 ?i1] by (auto simp: example_reads)
  obtain g2 where t2: "tick ?i2 ?g = Inr g2"
    using tick_completes [of ?g 0 ?i2] by (auto simp: example_reads)
  have o1: "\<not> out_of_bounds (head (move ?i1 (snake ?g)))"
    "\<not> distance (head (move ?i1 (snake ?g))) (food ?g) < 15"
    "\<exists>segment \<in> set (but_last_two (turtles (move ?i1 (snake ?g)))).
               distance (head (move ?i1 (snake ?g))) segment < 10"
    by (simp_all add: example_reads out_of_bounds_def but_last_two_def distance_less_iff)
  have o2: "\<not> out_of_bounds (head (move ?i2 (snake ?g)))"
    "\<not> distance (head (move ?i2 (snake ?g))) (food ?g) < 15"
    "\<not> (\<exists>segment \<in> set (but_last_two (turtles (move ?i2 (snake ?g)))).
               distance (head (move ?i2 (snake ?g))) segment < 10)"
    by (simp_all add: example_reads out_of_bounds_def but_last_two_def distance_less_iff)
  from self_collision_skips_last_two
    [of ?i1 ?g g1 "(0, 0)" "(20, 0)" "(40, 0)" "(20, 0)" "[]" "(0, 0)" "(0, 0)" "[]"] t1 o1
  have 1: "\<not> game_on g1 \<and> summaries g1 = 1" by (auto simp: example_reads)
  from self_collision_skips_last_two
    [of ?i2 ?g g2 "(0, 0)" "(20, 0)" "(60, 0)" "(60, 0)" "[]" "(0, 0)" "(0, 0)" "[]"] t2 o2
  have 2: "game_on g2 \<and> summaries g2 = 0" by (auto simp: example_reads)
  from t1 t2 1 2 show ?thesis by blast
qed


section \<open>The speed dialog\<close>

lemma speed_invalid_iff:
  "speed_invalid s = Inr False \<longleftrightarrow> isdigit s \<and> (\<exists>n. py_int s = Some n \<and> 10 \<le> n \<and> n \<le> 20)"
  "speed_invalid s = Inl e \<longleftrightarrow> e = ValueError \<and> isdigit s \<and> py_int s = None"
  by (auto simp: speed_invalid_def split: option.splits)

lemma digits_tail_total: "list_all is_decimal ds \<Longrightarrow> \<exists>v. digits_tail acc ds = Some v"
  by (induction acc ds rule: digits_tail.induct) auto

lemma py_int_decimals:
  assumes "s \<noteq> []" "list_all is_decimal s"
  shows "\<exists>n. py_int s = Some n"
proof -
  obtain c cs where s: "s = c # cs" using assms(1) by (cases s) auto
  with assms(2) have c: "is_decimal c" "list_all is_decimal cs" by simp_all
  have "is_decimal (hd s)" "is_decimal (last s)"
    using assms by (simp_all add: s list_all_iff)
  then have "strip s = s" using assms(1) by (intro strip_id) (auto dest: decimal_not_space)
  moreover obtain v where "digits_tail (digit_value c) cs = Some v"
    using digits_tail_total [OF c(2)] by blast
  ultimately show ?thesis
    using c decimal_not_space [OF c(1)] by (simp add: py_int_def s unsigned_def)
qed

text \<open>
  The validation loop answers every text of decimal digits and every text that is not
  all digits without an exception; it accepts exactly the texts of digits whose value
  is from 10 to 20.
\<close>

lemma speed_invalid_total:
  "\<not> isdigit s \<or> list_all is_decimal s \<Longrightarrow> \<exists>b. speed_invalid s = Inr b"
  using py_int_decimals [of s]
  by (cases "isdigit s") (auto simp: speed_invalid_def isdigit_def split: option.splits)

lemma speed_prompt_cancel:
  "alive g \<Longrightarrow>
   speed_prompt p (None # rest) g =
     Some (Inr (None, log [Textinput ''Speed of Snake!'' p, Clear_screen, Bgcolor ''black'',
                           Write Goodbye] g))"
  by (simp add: canvas_def show_goodbye_message_def log_log)

lemma speed_prompt_rejects:
  "alive g \<Longrightarrow> speed_invalid s = Inr True \<Longrightarrow>
   speed_prompt p (Some s # rest) g =
     speed_prompt ''Enter speed of snake from [ 10 to 20 ] <<<||'' rest
       (log [Textinput ''Speed of Snake!'' p, Write Hint, Update, Sleep 1500, Clear_text] g)"
  by (simp add: canvas_def show_hint_def seq.simps window_update_def sleep_def log_log)

lemma speed_prompt_accepts:
  "alive g \<Longrightarrow> speed_invalid s = Inr False \<Longrightarrow>
   speed_prompt p (Some s # rest) g = Some (Inr (Some s, log [Textinput ''Speed of Snake!'' p] g))"
  by (simp add: canvas_def)

lemma speed_prompt_raises:
  "alive g \<Longrightarrow> speed_invalid s = Inl e \<Longrightarrow> speed_prompt p (Some s # rest) g = Some (Inl e)"
  by (simp add: canvas_def)

lemma main_cancel:
  "alive g \<Longrightarrow> speeds inp = None # rest \<Longrightarrow>
   main inp g =
     Some (Inr (False,
       log [Bgcolor ''slate blue'', Title ''Anas GB!'', Setup 1000 800, Tracer 0,
            Textinput ''Speed of Snake!'' ''Enter speed of snake from [10] to [20] <<!!! '',
            Clear_screen, Bgcolor ''black'', Write Goodbye] (g\<lparr>game_on := True\<rparr>)))"
  by (simp add: main_def canvas_def show_goodbye_message_def log_log)

text \<open>
  C6, at a text that is a digit for \<open>isdigit\<close> and not a decimal digit for \<open>int\<close>, the
  superscript two (U+00B2): the condition of the validation loop raises \<open>ValueError\<close>, in
  the first dialog and in every later one, so \<open>main\<close> ends with the exception; no hint
  is shown and the dialog is not opened again.
\<close>

theorem speed_prompt_superscript_digit_raises:
  "isdigit [CHR 0xB2] \<and> py_int [CHR 0xB2] = None \<and>
   speed_invalid [CHR 0xB2] = Inl ValueError \<and>
   main (example_session [Some [CHR 0xB2], Some ''15''] []) (initial None) = Some (Inl ValueError) \<and>
   main (example_session [Some ''abc'', Some [CHR 0xB2], Some ''15''] []) (initial None) =
     Some (Inl ValueError)"
proof -
  have 1: "isdigit [CHR 0xB2]" "py_int [CHR 0xB2] = None" by (simp_all add: py_defs)
  then have 2: "speed_invalid [CHR 0xB2] = Inl ValueError" by (simp add: speed_invalid_def)
  have 3: "speed_invalid ''abc'' = Inr True" by (simp add: speed_invalid_def py_defs)
  have "main (example_session [Some [CHR 0xB2], Some ''15''] []) (initial None) = Some (Inl ValueError)"
    by (simp add: main_def canvas_def example_session_def initial_def 2)
  moreover have "main (example_session [Some ''abc'', Some [CHR 0xB2], Some ''15''] []) (initial None) =
     Some (Inl ValueError)"
    by (simp add: main_def canvas_def example_session_def initial_def 2 3
        show_hint_def seq.simps window_update_def sleep_def)
  ultimately show ?thesis using 1 2 by simp
qed


section \<open>The end of a round\<close>

lemma click_eq:
  "click g =
     (if alive g
      then (if \<not> game_on g \<and> is_on_close g
            then (log [Destroy] g)\<lparr>alive := False, game_on := False, is_on_close := True\<rparr>
            else (log [Clear_screen, Bgcolor ''black'', Write Goodbye] g)
                   \<lparr>game_on := False, is_on_close := True\<rparr>)
      else g)"
  by (simp add: click_def on_close_def show_goodbye_message_def canvas_def log_def)

lemma read_file_score_simps2 [simp]:
  "read_file_score (g\<lparr>food := p\<rparr>) = read_file_score g"
  "read_file_score (g\<lparr>score := k\<rparr>) = read_file_score g"
  "read_file_score (g\<lparr>is_on_close := b\<rparr>) = read_file_score g"
  "read_file_score (g\<lparr>alive := b\<rparr>) = read_file_score g"
  by (simp_all add: read_file_score_def)

lemma click_trace_no_sleep:
  "\<exists>rest. trace (click g) = trace g @ rest \<and> (\<forall>ms. Sleep ms \<notin> set rest)"
  by (simp add: click_eq log_def)

lemma clicks_trace_no_sleep:
  "\<exists>rest. trace ((click ^^ n) g) = trace g @ rest \<and> (\<forall>ms. Sleep ms \<notin> set rest)"
proof (induction n)
  case 0
  then show ?case by simp
next
  case (Suc n)
  then obtain r1 where 1: "trace ((click ^^ n) g) = trace g @ r1" "\<forall>ms. Sleep ms \<notin> set r1"
    by blast
  obtain r2 where 2: "trace (click ((click ^^ n) g)) = trace ((click ^^ n) g) @ r2"
    "\<forall>ms. Sleep ms \<notin> set r2"
    using click_trace_no_sleep by blast
  from 1 2 have "trace ((click ^^ Suc n) g) = trace g @ (r1 @ r2) \<and>
    (\<forall>ms. Sleep ms \<notin> set (r1 @ r2))" by simp
  then show ?case by blast
qed

text \<open>
  In every pass of the main loop that shows the game-over summary, no pause follows the
  summary: what the pass does after writing it is free of \<open>Sleep\<close>.
\<close>

lemma no_pause_after_summary:
  assumes "tick i g = Inr g'" "summaries g' = summaries g + 1"
  shows "\<exists>before best after.
           trace g' = before @ [Write (Game_over_text best)] @ after \<and>
           (\<forall>ms. Sleep ms \<notin> set after)"
proof -
  from assms(1) obtain best g1 g2 where t:
    "alive g" "read_file_score g = Inr best"
    "g1 = (click ^^ closes_move i)
            (log [Sleep 50, Clear_text, Write (Current_score (score g) best), Move_snake]
               (g\<lparr>snake := move i (snake g)\<rparr>))"
    "checks i g1 = Inr g2" "alive g2"
    "g' = log [Listen, Onkey ''Down'', Onkey ''Up'', Onkey ''Left'', Onkey ''Right''] g2"
    by (rule tick_Inr)
  have f: "snake g1 = move i (snake g)" "food g1 = food g" "read_file_score g1 = Inr best"
    by (simp_all add: t(2,3))
  have c: "out_of_bounds (head (move i (snake g))) \<or>
         (\<not> distance (head (move i (snake g))) (food g) < 15 \<and>
          (\<exists>segment \<in> set (but_last_two (turtles (move i (snake g)))).
             distance (head (move i (snake g))) segment < 10))"
    using assms(1)
  proof (cases rule: tick_branches)
    case (collision best)
    then show ?thesis by blast
  next
    case eat
    with assms(2) show ?thesis by simp
  next
    case plain
    with assms(2) show ?thesis by simp
  qed
  have "checks i g1 = collision i g1"
  proof (cases "out_of_bounds (head (move i (snake g)))")
    case True
    then show ?thesis by (simp add: checks_def f)
  next
    case False
    with c show ?thesis by (simp add: checks_def f self_collision_eq)
  qed
  with t(4) have col: "collision i g1 = Inr g2" by simp
  let ?h = "log [Sleep 300, Hide_snake, Clear_text, Hide_food] (g1\<lparr>game_on := False\<rparr>)"
  from col have a1: "alive g1" by (simp add: collision_eq split: if_splits)
  with col f have go: "game_over (closes_over i) ?h = Inr g2" by (simp add: collision_eq)
  let ?m = "max best (score ?h)"
  let ?k = "log [Goto 0 0, Bgcolor ''crimson'', Color ''peach puff'',
                       Write (Game_over_text ?m),
                       Goto (- 470) 330, Write Icon, Goto (- 470) (- 330), Write Icon,
                       Goto 430 330, Write Icon, Goto 430 (- 330), Write Icon, Update]
                    (if score ?h > best then save_score ?h else ?h)"
  from go a1 f have g2: "g2 = (click ^^ closes_over i) ?k" by (simp add: game_over_eq)
  obtain r where r: "trace g2 = trace ?k @ r" "\<forall>ms. Sleep ms \<notin> set r"
    unfolding g2 using clicks_trace_no_sleep by blast
  have "trace g' =
      (trace (if score ?h > best then save_score ?h else ?h) @
         [Goto 0 0, Bgcolor ''crimson'', Color ''peach puff'']) @
      [Write (Game_over_text ?m)] @
      ([Goto (- 470) 330, Write Icon, Goto (- 470) (- 330), Write Icon,
        Goto 430 330, Write Icon, Goto 430 (- 330), Write Icon, Update] @ r @
       [Listen, Onkey ''Down'', Onkey ''Up'', Onkey ''Left'', Onkey ''Right''])"
    using r(1) by (simp add: t(6))
  moreover have "\<forall>ms. Sleep ms \<notin> set
      ([Goto (- 470) 330, Write Icon, Goto (- 470) (- 330), Write Icon,
        Goto 430 330, Write Icon, Goto 430 (- 330), Write Icon, Update] @ r @
       [Listen, Onkey ''Down'', Onkey ''Up'', Onkey ''Left'', Onkey ''Right''])"
    using r(2) by simp
  ultimately show ?thesis by blast
qed

text \<open>
  C9, at a round of one pass that runs the head over the right border, followed by the
  answer \<open>n\<close> to the replay dialog and two clicks on the close button: every effect of
  the run, in order. The only pause of the game-over handling (300 ms) comes before the
  objects are hidden and the summary is drawn. After the summary and the window update
  come the key bindings of the loop pass and, with no pause, the replay dialog.
\<close>

theorem replay_prompt_follows_summary_at_once:
  "\<exists>g'. program
       (example_session [Some ''15'']
          [example_tick \<lparr>turtles = [(0, 0), (20, 0), (40, 0), (486, 0)], head = (486, 0)\<rparr>])
       [\<lparr>answer = Some ''n'', closes_prompt = 0, session = example_session [] []\<rparr>] 2 False
       (initial None) = Some (Inr g') \<and>
     trace g' =
       [Bgcolor ''slate blue'', Title ''Anas GB!'', Setup 1000 800, Tracer 0,
        Textinput ''Speed of Snake!'' ''Enter speed of snake from [10] to [20] <<!!! '',
        Protocol_on_close,
        New_turtle ''lavender'', Goto 0 330, Write Welcome, Color ''violet'',
        Goto (- 470) 330, Write Icon, Goto (- 470) (- 330), Write Icon,
        Goto 430 330, Write Icon, Goto 430 (- 330), Write Icon, Update, Sleep 1000, Clear_text,
        New_turtle ''lime'', New_turtle ''plum'',
        New_turtle '''', File_write ''0'', Turtle_setup, Color ''violet'', Goto 0 350,
        Apear_food,
        Sleep 50, Clear_text, Write (Current_score 0 0), Move_snake,
        Sleep 300, Hide_snake, Clear_text, Hide_food,
        Goto 0 0, Bgcolor ''crimson'', Color ''peach puff'', Write (Game_over_text 0),
        Goto (- 470) 330, Write Icon, Goto (- 470) (- 330), Write Icon,
        Goto 430 330, Write Icon, Goto 430 (- 330), Write Icon, Update,
        Listen, Onkey ''Down'', Onkey ''Up'', Onkey ''Left'', Onkey ''Right'',
        Textinput ''New Game! ''
          ''Do you want to play again? Type [ Y ] to start or [ N ] to exit!'',
        Clear_screen, Bgcolor ''black'', Write Goodbye,
        Exitonclick, Clear_screen, Bgcolor ''black'', Write Goodbye, Destroy]"
proof -
  let ?i = "example_tick \<lparr>turtles = [(0, 0), (20, 0), (40, 0), (486, 0)], head = (486, 0)\<rparr>"
  have p: "py_int ''15'' = Some 15" "py_int ''0'' = Some 0" "isdigit ''15''"
    by (simp_all add: py_defs)
  then have v: "speed_invalid ''15'' = Inr False" by (simp add: speed_invalid_def)
  have l: "str_lower (Some ''n'') = ''n''" by (simp add: str_lower_def lower_char_def)
  show ?thesis
    by (simp add: program_def main_def example_session_def example_tick_def initial_def
        canvas_def v p l start_round_def show_start_screen_def seq.simps window_update_def
        sleep_def Score_init_eq file_write_def tick_eq checks_def collision_eq game_over_eq
        out_of_bounds_def read_file_score_def log_def show_goodbye_message_def exitonclick_def
        click_eq numeral_2_eq_2)
qed


section \<open>Closing the window\<close>

lemma destroys_log: "destroys (log es g) = destroys g + length (filter (\<lambda>e. e = Destroy) es)"
  by (simp add: destroys_def log_def)

lemma destroys_update [simp]:
  "destroys (g\<lparr>game_on := a\<rparr>) = destroys g" "destroys (g\<lparr>is_on_close := a\<rparr>) = destroys g"
  "destroys (g\<lparr>alive := a\<rparr>) = destroys g" "destroys (g\<lparr>score_file := f\<rparr>) = destroys g"
  "destroys (g\<lparr>score := k\<rparr>) = destroys g" "destroys (g\<lparr>snake := s\<rparr>) = destroys g"
  "destroys (g\<lparr>food := p\<rparr>) = destroys g"
  by (simp_all add: destroys_def)

lemma keeps_refl: "keeps g g"
  by (simp add: keeps_def)

lemma keeps_trans: "keeps g g1 \<Longrightarrow> keeps g1 g2 \<Longrightarrow> keeps g g2"
  by (simp add: keeps_def)

lemma keeps_same:
  "is_on_close g' = is_on_close g \<Longrightarrow> alive g' = alive g \<Longrightarrow> destroys g' = destroys g \<Longrightarrow>
   keeps g g'"
  by (simp add: keeps_def window_ok_def)

lemma keeps_click: "keeps g (click g)"
  by (simp add: click_eq keeps_def window_ok_def destroys_log)

lemma keeps_clicks: "keeps g ((click ^^ n) g)"
proof (induction n)
  case 0
  then show ?case by (simp add: keeps_refl)
next
  case (Suc n)
  from keeps_trans [OF this keeps_click] show ?case by simp
qed

lemma keeps_canvas: "canvas es g = Inr g' \<Longrightarrow> Destroy \<notin> set es \<Longrightarrow> keeps g g'"
  by (auto simp: canvas_Inr destroys_log filter_empty_conv intro!: keeps_same)

lemma keeps_sleep: "sleep ms g = Inr g' \<Longrightarrow> keeps g g'"
  by (auto simp: sleep_Inr destroys_log intro!: keeps_same)

lemma keeps_window_update: "window_update n g = Inr g' \<Longrightarrow> keeps g g'"
proof -
  assume "window_update n g = Inr g'"
  then have g': "g' = (click ^^ n) (log [Update] g)" by (simp add: window_update_Inr)
  have "keeps g (log [Update] g)" by (rule keeps_same) (simp_all add: destroys_log)
  from keeps_trans [OF this keeps_clicks] show ?thesis by (simp add: g')
qed

lemma keeps_seq:
  "(\<And>f g g'. f \<in> set fs \<Longrightarrow> f g = Inr g' \<Longrightarrow> keeps g g') \<Longrightarrow>
   seq fs g = Inr g' \<Longrightarrow> keeps g g'"
proof (induction fs arbitrary: g)
  case Nil
  then show ?case by (simp add: seq_Nil_Inr keeps_refl)
next
  case (Cons f fs)
  from Cons.prems(2) obtain g1 where 1: "f g = Inr g1" "seq fs g1 = Inr g'"
    by (auto simp: seq_Cons_Inr)
  have "keeps g g1" using Cons.prems(1) [of f g g1] 1(1) by simp
  moreover have "keeps g1 g'"
  proof (rule Cons.IH [OF _ 1(2)])
    fix h k k'
    assume "h \<in> set fs" "h k = Inr k'"
    then show "keeps k k'" using Cons.prems(1) [of h k k'] by simp
  qed
  ultimately show ?case by (rule keeps_trans)
qed

lemma keeps_show_goodbye_message: "show_goodbye_message g = Inr g' \<Longrightarrow> keeps g g'"
  by (simp add: show_goodbye_message_def keeps_canvas)

lemma keeps_Score_init: "Score_init g = Inr g' \<Longrightarrow> keeps g g'"
  by (auto simp: Score_init_eq file_write_def destroys_log split: if_splits intro!: keeps_same)

lemma keeps_game_over: "game_over n g = Inr g' \<Longrightarrow> keeps g g'"
proof -
  assume a: "game_over n g = Inr g'"
  then obtain best where b: "read_file_score g = Inr best" "alive g"
    using game_over_result by blast
  let ?g2 = "log [Goto 0 0, Bgcolor ''crimson'', Color ''peach puff'',
                       Write (Game_over_text (max best (score g))),
                       Goto (- 470) 330, Write Icon, Goto (- 470) (- 330), Write Icon,
                       Goto 430 330, Write Icon, Goto 430 (- 330), Write Icon, Update]
                    (if score g > best then save_score g else g)"
  from a b have g': "g' = (click ^^ n) ?g2" by (simp add: game_over_eq)
  have "keeps g ?g2"
    by (rule keeps_same) (simp_all add: destroys_log save_score_def file_write_def)
  from keeps_trans [OF this keeps_clicks] show ?thesis by (simp add: g')
qed

lemma keeps_collision: "collision i g = Inr g' \<Longrightarrow> keeps g g'"
proof -
  assume a: "collision i g = Inr g'"
  let ?g1 = "log [Sleep 300, Hide_snake, Clear_text, Hide_food] (g\<lparr>game_on := False\<rparr>)"
  from a have "game_over (closes_over i) ?g1 = Inr g'"
    by (simp add: collision_eq split: if_splits sum.splits)
  then have "keeps ?g1 g'" by (rule keeps_game_over)
  moreover have "keeps g ?g1" by (rule keeps_same) (simp_all add: destroys_log)
  ultimately show ?thesis using keeps_trans by blast
qed

lemma keeps_checks: "checks i g = Inr g' \<Longrightarrow> keeps g g'"
proof -
  assume a: "checks i g = Inr g'"
  have e: "keeps g g'" if "eat i g = Inr g'"
    using that by (auto simp: eat_eq destroys_log split: if_splits intro!: keeps_same)
  from a show ?thesis
    by (auto simp: checks_def self_collision_eq keeps_refl split: if_splits
        intro: keeps_collision e)
qed

lemma keeps_tick: "tick i g = Inr g' \<Longrightarrow> keeps g g'"
proof -
  assume "tick i g = Inr g'"
  then obtain best g1 g2 where t:
    "g1 = (click ^^ closes_move i)
            (log [Sleep 50, Clear_text, Write (Current_score (score g) best), Move_snake]
               (g\<lparr>snake := move i (snake g)\<rparr>))"
    "checks i g1 = Inr g2"
    "g' = log [Listen, Onkey ''Down'', Onkey ''Up'', Onkey ''Left'', Onkey ''Right''] g2"
    by (rule tick_Inr)
  have "keeps g (log [Sleep 50, Clear_text, Write (Current_score (score g) best), Move_snake]
               (g\<lparr>snake := move i (snake g)\<rparr>))"
    by (rule keeps_same) (simp_all add: destroys_log)
  from keeps_trans [OF this keeps_clicks] have 1: "keeps g g1" by (simp add: t(1))
  have 2: "keeps g1 g2" using t(2) by (rule keeps_checks)
  have 3: "keeps g2 g'" unfolding t(3) by (rule keeps_same) (simp_all add: destroys_log)
  from 1 2 3 show ?thesis using keeps_trans by blast
qed

lemma keeps_play: "play ts g = Some (Inr g') \<Longrightarrow> keeps g g'"
proof (induction ts arbitrary: g)
  case Nil
  then show ?case by (simp add: keeps_refl split: if_splits)
next
  case (Cons i rest)
  show ?case
  proof (cases "game_on g")
    case False
    with Cons.prems show ?thesis by (simp add: keeps_refl)
  next
    case True
    with Cons.prems obtain g1 where t: "tick i g = Inr g1" and p: "play rest g1 = Some (Inr g')"
      by (cases "tick i g") simp_all
    from keeps_tick [OF t] Cons.IH [OF p] show ?thesis by (rule keeps_trans)
  qed
qed


lemma keeps_show_hint: "show_hint g = Inr g' \<Longrightarrow> keeps g g'"
  unfolding show_hint_def
  by (erule keeps_seq [rotated]) (auto intro: keeps_canvas keeps_sleep keeps_window_update)

lemma keeps_show_start_screen: "show_start_screen n g = Inr g' \<Longrightarrow> keeps g g'"
  unfolding show_start_screen_def
  by (erule keeps_seq [rotated]) (auto intro: keeps_canvas keeps_sleep keeps_window_update)

lemma keeps_show_invalid_entry: "show_invalid_entry a g = Inr g' \<Longrightarrow> keeps g g'"
  unfolding show_invalid_entry_def
  by (erule keeps_seq [rotated]) (auto intro: keeps_canvas keeps_sleep keeps_window_update)

lemma keeps_update_fields:
  "keeps g (g\<lparr>snake := s\<rparr>)" "keeps g (g\<lparr>food := p\<rparr>)" "keeps g (g\<lparr>game_on := b\<rparr>)"
  "keeps g (g\<lparr>score := k\<rparr>)"
  by (rule keeps_same; simp)+

lemma keeps_start_round: "start_round inp speed g = Inr g' \<Longrightarrow> keeps g g'"
  unfolding start_round_def
proof (erule keeps_seq [rotated], goal_cases)
  case (1 f g g')
  then consider "f = canvas [Protocol_on_close]" | "f = show_start_screen (closes_start inp)"
    | "f = canvas [New_turtle ''lime'']"
    | "f = (\<lambda>g. case py_int speed of
              None \<Rightarrow> Inl ValueError
            | Some n \<Rightarrow> canvas [New_turtle ''plum''] (g\<lparr>snake := new_snake inp n\<rparr>))"
    | "f = Score_init" | "f = (\<lambda>g. canvas [Apear_food] (g\<lparr>food := first_food inp\<rparr>))"
    by auto
  then show ?case
  proof cases
    case 4
    with 1(2) obtain n where "canvas [New_turtle ''plum''] (g\<lparr>snake := new_snake inp n\<rparr>) = Inr g'"
      by (auto split: option.splits)
    from keeps_trans [OF keeps_update_fields(1) keeps_canvas [OF this]] show ?thesis by simp
  next
    case 6
    with 1(2) have "canvas [Apear_food] (g\<lparr>food := first_food inp\<rparr>) = Inr g'" by simp
    from keeps_trans [OF keeps_update_fields(2) keeps_canvas [OF this]] show ?thesis by simp
  qed (use 1(2) in \<open>auto intro: keeps_canvas keeps_show_start_screen keeps_Score_init\<close>)
qed

lemma keeps_speed_prompt: "speed_prompt p answers g = Some (Inr (a, g')) \<Longrightarrow> keeps g g'"
proof (induction answers arbitrary: p g)
  case Nil
  then show ?case by (simp split: sum.splits)
next
  case (Cons x rest)
  from Cons.prems obtain g1 where c: "canvas [Textinput ''Speed of Snake!'' p] g = Inr g1"
    by (cases "canvas [Textinput ''Speed of Snake!'' p] g") simp_all
  have k1: "keeps g g1" using c by (rule keeps_canvas) simp
  show ?case
  proof (cases x)
    case None
    with Cons.prems c have "show_goodbye_message g1 = Inr g'"
      by (simp split: sum.splits)
    from keeps_trans [OF k1 keeps_show_goodbye_message [OF this]] show ?thesis .
  next
    case (Some speed)
    show ?thesis
    proof (cases "speed_invalid speed")
      case (Inl e)
      with Cons.prems c Some show ?thesis by simp
    next
      case (Inr b)
      show ?thesis
      proof (cases b)
        case False
        with Cons.prems c Some Inr have "g' = g1" by simp
        with k1 show ?thesis by simp
      next
        case True
        with Cons.prems c Some Inr obtain g2 where h: "show_hint g1 = Inr g2"
          and r: "speed_prompt ''Enter speed of snake from [ 10 to 20 ] <<<||'' rest g2 =
                    Some (Inr (a, g'))"
          by (cases "show_hint g1") simp_all
        from keeps_trans [OF keeps_trans [OF k1 keeps_show_hint [OF h]] Cons.IH [OF r]]
        show ?thesis .
      qed
    qed
  qed
qed


lemma main_Inr:
  assumes "main inp g = Some (Inr (b, g'))"
  obtains
    (cancelled) g1 where
      "canvas [Bgcolor ''slate blue'', Title ''Anas GB!'', Setup 1000 800, Tracer 0]
         (g\<lparr>game_on := True\<rparr>) = Inr g1"
      "speed_prompt ''Enter speed of snake from [10] to [20] <<!!! '' (speeds inp) g1 =
         Some (Inr (None, g'))"
      "\<not> b"
  | (played) g1 speed g2 g3 g4 where
      "canvas [Bgcolor ''slate blue'', Title ''Anas GB!'', Setup 1000 800, Tracer 0]
         (g\<lparr>game_on := True\<rparr>) = Inr g1"
      "speed_prompt ''Enter speed of snake from [10] to [20] <<!!! '' (speeds inp) g1 =
         Some (Inr (Some speed, g2))"
      "start_round inp speed g2 = Inr g3"
      "play (ticks inp) g3 = Some (Inr g4)"
      "b = (\<not> is_on_close g4)" "g' = g4\<lparr>snake := (snake g4)\<lparr>turtles := []\<rparr>\<rparr>"
proof -
  from assms obtain g1 where 1:
    "canvas [Bgcolor ''slate blue'', Title ''Anas GB!'', Setup 1000 800, Tracer 0]
         (g\<lparr>game_on := True\<rparr>) = Inr g1"
    unfolding main_def
    by (cases "canvas [Bgcolor ''slate blue'', Title ''Anas GB!'', Setup 1000 800, Tracer 0]
         (g\<lparr>game_on := True\<rparr>)") simp_all
  from assms 1 obtain a g2 where 2:
    "speed_prompt ''Enter speed of snake from [10] to [20] <<!!! '' (speeds inp) g1 =
         Some (Inr (a, g2))"
    unfolding main_def
    by (cases "speed_prompt ''Enter speed of snake from [10] to [20] <<!!! '' (speeds inp) g1")
      (auto split: sum.splits)
  show thesis
  proof (cases a)
    case None
    with assms 1 2 have "\<not> b" "g' = g2" by (simp_all add: main_def)
    with 1 2 None cancelled show ?thesis by blast
  next
    case (Some speed)
    with assms 1 2 obtain g3 where 3: "start_round inp speed g2 = Inr g3"
      by (cases "start_round inp speed g2") (simp_all add: main_def)
    with assms 1 2 Some obtain g4 where 4: "play (ticks inp) g3 = Some (Inr g4)"
      by (cases "play (ticks inp) g3") (auto simp: main_def split: sum.splits)
    with assms 1 2 3 Some have "b = (\<not> is_on_close g4)"
      "g' = g4\<lparr>snake := (snake g4)\<lparr>turtles := []\<rparr>\<rparr>"
      by (auto simp: main_def)
    with 1 2 3 4 Some played show ?thesis by blast
  qed
qed

lemma keeps_main: "main inp g = Some (Inr (b, g')) \<Longrightarrow> keeps g g'"
proof (erule main_Inr, goal_cases)
  case (1 g1)
  from keeps_trans [OF keeps_update_fields(3) keeps_canvas [OF 1(1)]] have "keeps g g1" by simp
  from keeps_trans [OF this keeps_speed_prompt [OF 1(2)]] show ?case .
next
  case (2 g1 speed g2 g3 g4)
  from keeps_trans [OF keeps_update_fields(3) keeps_canvas [OF 2(1)]] have "keeps g g1" by simp
  from keeps_trans [OF this keeps_speed_prompt [OF 2(2)]] have "keeps g g2" .
  from keeps_trans [OF this keeps_start_round [OF 2(3)]] have "keeps g g3" .
  from keeps_trans [OF this keeps_play [OF 2(4)]] have "keeps g g4" .
  from keeps_trans [OF this keeps_update_fields(1)] show ?case by (simp add: 2(6))
qed

lemma main_False_when_closed:
  assumes "main inp g = Some (Inr (b, g'))" "is_on_close g'"
  shows "\<not> b"
  using assms(1)
proof (cases rule: main_Inr)
  case (cancelled g1)
  then show ?thesis by simp
next
  case (played g1 speed g2 g3 g4)
  with assms(2) show ?thesis by simp
qed

lemma replay_closed: "is_on_close g \<Longrightarrow> replay rs g = Some (Inr g)"
  by (cases rs) simp_all

lemma keeps_replay: "replay rs g = Some (Inr g') \<Longrightarrow> keeps g g'"
proof (induction rs arbitrary: g)
  case Nil
  then show ?case by (auto simp: keeps_refl split: if_splits sum.splits)
next
  case (Cons r rest)
  show ?case
  proof (cases "is_on_close g")
    case True
    with Cons.prems show ?thesis by (simp add: keeps_refl)
  next
    case False
    with Cons.prems obtain g1 where c: "canvas [Textinput ''New Game! ''
                 ''Do you want to play again? Type [ Y ] to start or [ N ] to exit!''] g = Inr g1"
      by (cases "canvas [Textinput ''New Game! ''
                 ''Do you want to play again? Type [ Y ] to start or [ N ] to exit!''] g") simp_all
    define g2 where "g2 = (click ^^ closes_prompt r) g1"
    have k2: "keeps g g2"
      unfolding g2_def using keeps_trans [OF keeps_canvas [OF c] keeps_clicks] by simp
    consider (yes) "str_lower (answer r) = ''y''"
      | (no) "str_lower (answer r) \<noteq> ''y''" "str_lower (answer r) = ''n'' \<or> answer r = None"
      | (other) "str_lower (answer r) \<noteq> ''y''" "\<not> (str_lower (answer r) = ''n'' \<or> answer r = None)"
      by auto
    then show ?thesis
    proof cases
      case yes
      with Cons.prems False c obtain g3 where 3: "canvas [Clear_screen] g2 = Inr g3"
        by (cases "canvas [Clear_screen] g2") (simp_all add: g2_def Let_def)
      with Cons.prems False c yes obtain b g4 where 4: "main (session r) g3 = Some (Inr (b, g4))"
        and 5: "replay rest g4 = Some (Inr g')"
        by (cases "main (session r) g3") (auto simp: g2_def Let_def split: sum.splits)
      from keeps_trans [OF k2 keeps_canvas [OF 3]] have "keeps g g3" by simp
      from keeps_trans [OF keeps_trans [OF this keeps_main [OF 4]] Cons.IH [OF 5]]
      show ?thesis .
    next
      case no
      with Cons.prems False c have "show_goodbye_message g2 = Inr g'"
        by (cases "show_goodbye_message g2") (simp_all add: g2_def Let_def)
      from keeps_trans [OF k2 keeps_show_goodbye_message [OF this]] show ?thesis .
    next
      case other
      with Cons.prems False c obtain g3 where 3: "show_invalid_entry (answer r) g2 = Inr g3"
        and 5: "replay rest g3 = Some (Inr g')"
        by (cases "show_invalid_entry (answer r) g2") (simp_all add: g2_def Let_def)
      from keeps_trans [OF keeps_trans [OF k2 keeps_show_invalid_entry [OF 3]] Cons.IH [OF 5]]
      show ?thesis .
    qed
  qed
qed

lemma keeps_exitonclick: "exitonclick n c g = Some (Inr g') \<Longrightarrow> keeps g g'"
proof -
  assume a: "exitonclick n c g = Some (Inr g')"
  then obtain g1 where 1: "canvas [Exitonclick] g = Inr g1"
    by (cases "canvas [Exitonclick] g") (simp_all add: exitonclick_def)
  define g2 where "g2 = (click ^^ n) g1"
  have k: "keeps g g2"
    unfolding g2_def using keeps_trans [OF keeps_canvas [OF 1] keeps_clicks] by simp
  from a 1 have "g' = g2 \<or> g' = log [Bye] (g2\<lparr>alive := False\<rparr>)"
    by (auto simp: exitonclick_def Let_def g2_def split: if_splits)
  moreover have "keeps g2 (log [Bye] (g2\<lparr>alive := False\<rparr>))"
    by (simp add: keeps_def window_ok_def destroys_log)
  ultimately show ?thesis using k keeps_trans by blast
qed

lemma keeps_program: "program first rs n c g = Some (Inr g') \<Longrightarrow> keeps g g'"
proof -
  assume a: "program first rs n c g = Some (Inr g')"
  then obtain b g1 where 1: "main first g = Some (Inr (b, g1))"
    by (cases "main first g") (auto simp: program_def split: sum.splits)
  show ?thesis
  proof (cases b)
    case False
    with a 1 have "exitonclick n c g1 = Some (Inr g')" by (simp add: program_def)
    from keeps_trans [OF keeps_main [OF 1] keeps_exitonclick [OF this]] show ?thesis .
  next
    case True
    with a 1 obtain g2 where 2: "replay rs g1 = Some (Inr g2)"
      and 3: "exitonclick n c g2 = Some (Inr g')"
      by (cases "replay rs g1") (auto simp: program_def split: sum.splits)
    from keeps_trans [OF keeps_trans [OF keeps_main [OF 1] keeps_replay [OF 2]]
        keeps_exitonclick [OF 3]] show ?thesis .
  qed
qed


lemma on_close_result:
  assumes "on_close g = Inr g'"
  shows "destroys g' = destroys g + (if \<not> game_on g \<and> is_on_close g then 1 else 0) \<and>
         \<not> game_on g' \<and> is_on_close g'"
  using assms
  by (auto simp: on_close_def show_goodbye_message_def canvas_def destroys_log
      split: if_splits)

lemma clicks_closed: "alive g \<Longrightarrow> 0 < n \<Longrightarrow> is_on_close ((click ^^ n) g)"
proof (induction n)
  case 0
  then show ?case by simp
next
  case (Suc n)
  show ?case
  proof (cases "n = 0")
    case True
    with Suc.prems show ?thesis by (simp add: click_flags)
  next
    case False
    with Suc have "is_on_close ((click ^^ n) g)" by simp
    then show ?thesis by (simp add: click_flags)
  qed
qed

lemma tick_closed:
  assumes "tick i g = Inr g'" "0 < closes_move i"
  shows "\<not> game_on g' \<and> is_on_close g'"
proof -
  from assms(1) obtain best g1 g2 where t:
    "alive g"
    "g1 = (click ^^ closes_move i)
            (log [Sleep 50, Clear_text, Write (Current_score (score g) best), Move_snake]
               (g\<lparr>snake := move i (snake g)\<rparr>))"
    "checks i g1 = Inr g2"
    "g' = log [Listen, Onkey ''Down'', Onkey ''Up'', Onkey ''Left'', Onkey ''Right''] g2"
    by (rule tick_Inr)
  have "is_on_close g1" unfolding t(2) using t(1) assms(2) by (intro clicks_closed) simp_all
  with keeps_checks [OF t(3)] have "is_on_close g'" by (simp add: keeps_def t(4))
  moreover have "\<not> game_on g'"
    using assms(1)
  proof (cases rule: tick_branches)
    case (collision best)
    then show ?thesis by simp
  next
    case eat
    with assms(2) show ?thesis by simp
  next
    case plain
    with assms(2) show ?thesis by simp
  qed
  ultimately show ?thesis by simp
qed

lemma window_ok_initial: "window_ok (initial f)"
  by (simp add: window_ok_def initial_def destroys_def)

text \<open>
  C5: the close handler calls \<open>tk_window.destroy()\<close> exactly when, on entry, \<open>game_on\<close> is
  down and \<open>is_on_close\<close> is up, and it always leaves \<open>game_on\<close> down and \<open>is_on_close\<close> up.
  However often the button is clicked, and over any run of the program from its start,
  the window is destroyed by the handler at most once. Once \<open>is_on_close\<close> is up it
  stays up through \<open>main\<close>, whatever \<open>main\<close> returns with the flag up is \<open>False\<close>, and the
  replay loop ends without opening its dialog. A pass of the main loop that handles a
  click on the close button leaves \<open>game_on\<close> down, so the loop ends with that pass.
\<close>

theorem destroy_gated_by_both_flags:
  "(on_close g = Inr g' \<longrightarrow>
      destroys g' = destroys g + (if \<not> game_on g \<and> is_on_close g then 1 else 0) \<and>
      \<not> game_on g' \<and> is_on_close g') \<and>
   (window_ok g \<longrightarrow> destroys ((click ^^ k) g) \<le> 1) \<and>
   (program first rs n c (initial f) = Some (Inr g') \<longrightarrow> destroys g' \<le> 1) \<and>
   (main inp g = Some (Inr (b, g')) \<longrightarrow>
      (is_on_close g \<longrightarrow> is_on_close g') \<and> (is_on_close g' \<longrightarrow> \<not> b)) \<and>
   (is_on_close g \<longrightarrow> replay rs g = Some (Inr g)) \<and>
   (tick i g = Inr g' \<and> 0 < closes_move i \<longrightarrow>
      \<not> game_on g' \<and> is_on_close g' \<and> play rest g' = Some (Inr g'))"
proof -
  have "destroys ((click ^^ k) g) \<le> 1" if "window_ok g"
    using keeps_clicks [of g k] that by (simp add: keeps_def window_ok_def split: if_splits)
  moreover have "destroys g' \<le> 1" if "program first rs n c (initial f) = Some (Inr g')"
    using keeps_program [OF that] window_ok_initial [of f]
    by (simp add: keeps_def window_ok_def split: if_splits)
  moreover have "(is_on_close g \<longrightarrow> is_on_close g') \<and> (is_on_close g' \<longrightarrow> \<not> b)"
    if "main inp g = Some (Inr (b, g'))"
    using keeps_main [OF that] main_False_when_closed [OF that] by (auto simp: keeps_def)
  moreover have "\<not> game_on g' \<and> is_on_close g' \<and> play rest g' = Some (Inr g')"
    if "tick i g = Inr g'" "0 < closes_move i"
    using tick_closed [OF that] by (simp add: play_stopped)
  ultimately show ?thesis
    using on_close_result [of g g'] replay_closed [of g rs] by blast
qed

lemma example_close_run:
  "\<exists>g'. program (example_session [None] []) [] 2 False (initial None) = Some (Inr g') \<and>
        destroys g' = 1 \<and> \<not> alive g'"
  by (simp add: program_def main_def example_session_def initial_def canvas_def
      show_goodbye_message_def exitonclick_def click_eq numeral_2_eq_2 log_def destroys_def)

lemma example_click_tick:
  "\<exists>g'. tick ((example_tick \<lparr>turtles = [(0, 0), (20, 0), (40, 0), (60, 0)], head = (60, 0)\<rparr>)
                  \<lparr>closes_move := 1\<rparr>) (example_game (Some ''0'') 0) = Inr g'"
  by (simp add: tick_eq example_defs read_file_score_def py_defs checks_def out_of_bounds_def
      distance_less_iff self_collision_eq but_last_two_def click_eq canvas_def log_def)

theorem destroy_gated_by_both_flags_witness:
  "(\<exists>g1 g2. on_close (example_game None 0) = Inr g1 \<and> destroys g1 = 0 \<and> is_on_close g1 \<and>
      on_close g1 = Inr g2 \<and> destroys g2 = 1) \<and>
   (\<exists>g'. program (example_session [None] []) [] 2 False (initial None) = Some (Inr g') \<and>
      destroys g' \<le> 1) \<and>
   (\<exists>g'. main (example_session [None] []) ((initial None)\<lparr>is_on_close := True\<rparr>) =
            Some (Inr (False, g')) \<and> is_on_close g') \<and>
   replay [\<lparr>answer = Some ''y'', closes_prompt = 0, session = example_session [] []\<rparr>]
     ((initial None)\<lparr>is_on_close := True\<rparr>) = Some (Inr ((initial None)\<lparr>is_on_close := True\<rparr>)) \<and>
   (\<exists>g'. tick ((example_tick \<lparr>turtles = [(0, 0), (20, 0), (40, 0), (60, 0)], head = (60, 0)\<rparr>)
                  \<lparr>closes_move := 1\<rparr>) (example_game (Some ''0'') 0) = Inr g' \<and>
      \<not> game_on g' \<and> is_on_close g' \<and> play [] g' = Some (Inr g'))"
proof -
  obtain g1 where 1: "on_close (example_game None 0) = Inr g1"
    by (simp add: on_close_def example_defs show_goodbye_message_def canvas_def)
  from destroy_gated_by_both_flags [where g = "example_game None 0" and g' = g1] 1
  have 2: "destroys g1 = 0 \<and> is_on_close g1 \<and> \<not> game_on g1"
    by (simp add: example_defs destroys_def)
  then obtain g2 where 3: "on_close g1 = Inr g2" by (simp add: on_close_def)
  from destroy_gated_by_both_flags [where g = g1 and g' = g2] 2 3 have 4: "destroys g2 = 1" by simp
  obtain g' where 5: "program (example_session [None] []) [] 2 False (initial None) = Some (Inr g')"
    using example_close_run by blast
  from destroy_gated_by_both_flags [where first = "example_session [None] []" and rs = "[]"
      and n = 2 and c = False and f = None and g' = g'] 5
  have 6: "destroys g' \<le> 1" by blast
  obtain g3 where 7: "main (example_session [None] []) ((initial None)\<lparr>is_on_close := True\<rparr>) =
            Some (Inr (False, g3))"
    by (simp add: main_cancel initial_def example_session_def)
  from destroy_gated_by_both_flags [where g = "(initial None)\<lparr>is_on_close := True\<rparr>" and g' = g3
      and inp = "example_session [None] []" and b = False] 7
  have 8: "is_on_close g3" by simp
  from destroy_gated_by_both_flags [where g = "(initial None)\<lparr>is_on_close := True\<rparr>"]
  have 9: "replay [\<lparr>answer = Some ''y'', closes_prompt = 0, session = example_session [] []\<rparr>]
     ((initial None)\<lparr>is_on_close := True\<rparr>) = Some (Inr ((initial None)\<lparr>is_on_close := True\<rparr>))"
    by simp
  let ?i = "(example_tick \<lparr>turtles = [(0, 0), (20, 0), (40, 0), (60, 0)], head = (60, 0)\<rparr>)
                  \<lparr>closes_move := 1\<rparr>"
  obtain g4 where 10: "tick ?i (example_game (Some ''0'') 0) = Inr g4"
    using example_click_tick by blast
  from destroy_gated_by_both_flags [where g = "example_game (Some ''0'') 0" and g' = g4
      and i = ?i and rest = "[]"] 10
  have 11: "\<not> game_on g4 \<and> is_on_close g4 \<and> play [] g4 = Some (Inr g4)"
    by (simp add: example_defs)
  from 1 2 3 4 5 6 7 8 9 10 11 show ?thesis by blast
qed

end
